theory Spec2Isabelle
  imports Complex_Main "HOL-Library.Log_Nat" "HOL-Library.Sublist" "HOL-Library.Char_ord"
    "HOL-Library.List_Lexorder"
begin

section \<open>JavaScript numbers\<close>

text \<open>
  A JavaScript \<^verbatim>\<open>number\<close> is an IEEE-754 binary64 value. A finite one is a real number
  of the form \<open>m * 2 ^ q\<close> with \<open>\<bar>m\<bar> < 2 ^ 53\<close> and \<open>- 1074 \<le> q\<close>, and every arithmetic
  operator returns the exact result rounded to the nearest such value, ties to the even
  significand. The rounding is written out: \<open>fl\<close> rounds a real to binary64, and the
  operators \<^verbatim>\<open>*\<close>, \<^verbatim>\<open>/\<close>, \<^verbatim>\<open>+\<close>, \<^verbatim>\<open>-\<close> of the source are \<open>fmul\<close>, \<open>fdiv\<close>, \<open>fadd\<close>, \<open>fsub\<close>.
  Subnormal values are covered (the quantum never drops below \<open>2 ^ - 1074\<close>); the
  exponent is not bounded above, so \<^verbatim>\<open>Infinity\<close> and \<^verbatim>\<open>NaN\<close> are outside the model: it is
  the program on finite numbers whose results stay below \<open>2 ^ 1024\<close>.
\<close>

definition expo :: "real \<Rightarrow> int" where
  \<comment> \<open>the binary exponent \<open>e\<close> of a non-zero \<open>x\<close>: \<open>2 ^ e \<le> \<bar>x\<bar> < 2 ^ (e + 1)\<close>\<close>
  "expo x = (if 1 \<le> \<bar>x\<bar> then bitlen \<lfloor>\<bar>x\<bar>\<rfloor> - 1 else - bitlen (\<lceil>1 / \<bar>x\<bar>\<rceil> - 1))"

definition rne :: "real \<Rightarrow> int" where
  \<comment> \<open>round to the nearest integer, ties to even\<close>
  "rne y = (let f = \<lfloor>y\<rfloor>; r = y - of_int f in
     if r < 1 / 2 then f else if 1 / 2 < r then f + 1 else if even f then f else f + 1)"

definition quantum :: "real \<Rightarrow> int" where
  "quantum x = max (expo x - 52) (- 1074)"

definition fl :: "real \<Rightarrow> real" where
  "fl x = (if x = 0 then 0 else of_int (rne (x / 2 powi quantum x)) * 2 powi quantum x)"


definition fmul :: "real \<Rightarrow> real \<Rightarrow> real" where
  "fmul x y = fl (x * y)"

definition fdiv :: "real \<Rightarrow> real \<Rightarrow> real" where
  "fdiv x y = fl (x / y)"

definition fadd :: "real \<Rightarrow> real \<Rightarrow> real" where
  "fadd x y = fl (x + y)"

definition fsub :: "real \<Rightarrow> real \<Rightarrow> real" where
  "fsub x y = fl (x - y)"

definition Math_round :: "real \<Rightarrow> int" where
  \<comment> \<open>\<^verbatim>\<open>Math.round\<close>: the nearest integer, a tie going towards \<open>+\<infinity>\<close>; exact on a double\<close>
  "Math_round x = \<lfloor>x + 1 / 2\<rfloor>"

text \<open>
  \<^verbatim>\<open>Math.pow\<close> is implementation-approximated in ECMAScript: no rounding is prescribed.
  The functions that call it take it as the parameter \<open>pw\<close>.
\<close>

type_synonym math_pow = "real \<Rightarrow> real \<Rightarrow> real"

section \<open>Interest formula library (interest-automation.ts)\<close>

definition calculateInterest :: "math_pow \<Rightarrow> real \<Rightarrow> real \<Rightarrow> string \<Rightarrow> string \<Rightarrow> int" where
  "calculateInterest pw balance apr interestScheme compoundingFrequency =
    (let principal = \<bar>balance\<bar> in
     if principal = 0 \<or> apr = 0 then 0
     else
       let rate = fdiv apr 100 in
       if interestScheme = ''simple'' then
         Math_round (fdiv (fmul principal rate) 12)
       else if interestScheme = ''compound_monthly'' then
         (let monthlyRate = fdiv rate 12;
              interest = fmul principal monthlyRate
          in Math_round interest)
       else if interestScheme = ''compound_daily'' then
         (let dailyRate = fdiv rate 365;
              daysInMonth = 30;
              amount = fmul principal (pw (fadd 1 dailyRate) daysInMonth);
              interest = fsub amount principal
          in Math_round interest)
       else if interestScheme = ''compound_annually'' then
         (let amount = fmul principal (pw (fadd 1 rate) (fdiv 1 12));
              interest = fsub amount principal
          in Math_round interest)
       else Math_round (fdiv (fmul principal rate) 12))"

definition round2 :: "real \<Rightarrow> real" where
  \<comment> \<open>\<^verbatim>\<open>Math.round(rate * 100 * 100) / 100\<close>\<close>
  "round2 rate = fdiv (of_int (Math_round (fmul (fmul rate 100) 100))) 100"

definition calculateAPRFromInterest :: "math_pow \<Rightarrow> real \<Rightarrow> real \<Rightarrow> string \<Rightarrow> real option" where
  "calculateAPRFromInterest pw interestCharged principal_arg interestScheme =
    (if principal_arg = 0 \<or> interestCharged = 0 then None
     else
       let absPrincipal = \<bar>principal_arg\<bar>;
           absInterest = \<bar>interestCharged\<bar>
       in
       if interestScheme = ''simple'' then
         (let rate = fmul (fdiv absInterest absPrincipal) 12 in Some (round2 rate))
       else if interestScheme = ''compound_monthly'' then
         (let rate = fmul (fdiv absInterest absPrincipal) 12 in Some (round2 rate))
       else if interestScheme = ''compound_daily'' then
         (let ratio = fadd 1 (fdiv absInterest absPrincipal);
              dailyRate = fsub (pw ratio (fdiv 1 30)) 1;
              rate = fmul dailyRate 365
          in Some (round2 rate))
       else if interestScheme = ''compound_annually'' then
         (let ratio = fadd 1 (fdiv absInterest absPrincipal);
              rate = fsub (pw ratio 12) 1
          in Some (round2 rate))
       else
         (let rate = fmul (fdiv absInterest absPrincipal) 12 in Some (round2 rate)))"



definition pow_rounded :: math_pow where
  "pow_rounded b e = fl (b powr e)"


text \<open>
  The accuracy the round trip asks of \<^verbatim>\<open>Math.pow\<close>: a relative error of at most \<open>2\<^sup>-\<^sup>4\<^sup>0\<close> on
  the bases and exponents the two functions use. The measure of closeness of the error
  analysis, and the unit roundoff of a double.
\<close>

definition pow_accurate :: "math_pow \<Rightarrow> bool" where
  "pow_accurate pw \<longleftrightarrow>
     (\<forall>b e. 1 \<le> b \<longrightarrow> b \<le> 4 \<longrightarrow> 0 \<le> e \<longrightarrow> e \<le> 30 \<longrightarrow>
        \<bar>pw b e - b powr e\<bar> \<le> (b powr e) / 2 ^ 40)"

definition rel_close :: "real \<Rightarrow> real \<Rightarrow> real \<Rightarrow> bool" where
  "rel_close e a b \<longleftrightarrow> \<bar>a - b\<bar> \<le> e * \<bar>b\<bar>"

definition ulp :: real where
  "ulp = 1 / 2 ^ 53"

section \<open>Strings and calendar days\<close>

text \<open>
  The string operations \<open>getNextInterestDate\<close> uses: \<^verbatim>\<open>String(n)\<close> on an integer,
  \<^verbatim>\<open>padStart\<close>, \<^verbatim>\<open>slice\<close> and \<^verbatim>\<open>parseInt\<close> (a sign and the longest run of decimal digits;
  \<open>None\<close> is \<^verbatim>\<open>NaN\<close>).
\<close>

definition digit_char :: "nat \<Rightarrow> char" where
  "digit_char n = char_of (48 + n)"

fun digits :: "nat \<Rightarrow> string" where
  "digits n = (if n < 10 then [digit_char n] else digits (n div 10) @ [digit_char (n mod 10)])"

declare digits.simps [simp del]

definition String_int :: "int \<Rightarrow> string" where
  "String_int n = (if n < 0 then CHR ''-'' # digits (nat (- n)) else digits (nat n))"

definition String_num :: "int option \<Rightarrow> string" where
  "String_num n = (case n of None \<Rightarrow> ''NaN'' | Some k \<Rightarrow> String_int k)"

definition padStart :: "nat \<Rightarrow> char \<Rightarrow> string \<Rightarrow> string" where
  "padStart n c s = replicate (n - length s) c @ s"

definition slice :: "string \<Rightarrow> nat \<Rightarrow> nat \<Rightarrow> string" where
  "slice s a b = take (b - a) (drop a s)"

definition is_digit :: "char \<Rightarrow> bool" where
  "is_digit c \<longleftrightarrow> CHR ''0'' \<le> c \<and> c \<le> CHR ''9''"

definition digit_val :: "char \<Rightarrow> nat" where
  "digit_val c = of_char c - 48"

definition digits_val :: "string \<Rightarrow> nat" where
  "digits_val s = foldl (\<lambda>acc c. 10 * acc + digit_val c) 0 s"

definition parseInt :: "string \<Rightarrow> int option" where
  "parseInt s =
     (let (neg, body) =
            (case s of
               c # cs \<Rightarrow> if c = CHR ''-'' then (True, cs) else if c = CHR ''+'' then (False, cs)
                         else (False, s)
             | [] \<Rightarrow> (False, s));
          ds = takeWhile is_digit body
      in if ds = [] then None
         else Some (if neg then - int (digits_val ds) else int (digits_val ds)))"

definition leap_year :: "int \<Rightarrow> bool" where
  "leap_year y \<longleftrightarrow> y mod 400 = 0 \<or> (y mod 4 = 0 \<and> y mod 100 \<noteq> 0)"

definition days_in_month :: "int \<Rightarrow> int \<Rightarrow> int" where
  "days_in_month y m =
     (if m = 2 then (if leap_year y then 29 else 28)
      else if m = 4 \<or> m = 6 \<or> m = 9 \<or> m = 11 then 30
      else 31)"

definition Date_day0 :: "int option \<Rightarrow> int option \<Rightarrow> int option" where
  \<comment> \<open>\<^verbatim>\<open>new Date(year, month, 0).getDate()\<close>: day 0 of month index \<open>month\<close> is the last
      day of the month before it; a year from 0 to 99 is read as 1900 + year; an index
      outside 0..11 carries into the year\<close>
  "Date_day0 year month =
     (case (year, month) of
        (Some y, Some m) \<Rightarrow>
          (let y0 = (if 0 \<le> y \<and> y \<le> 99 then 1900 + y else y)
           in Some (days_in_month (y0 + (m - 1) div 12) ((m - 1) mod 12 + 1)))
      | _ \<Rightarrow> None)"

definition Math_min :: "int option \<Rightarrow> int option \<Rightarrow> int option" where
  "Math_min a b = (case (a, b) of (Some x, Some y) \<Rightarrow> Some (min x y) | _ \<Rightarrow> None)"

subsection \<open>The month utilities (shared/months)\<close>

text \<open>
  Modelled from the spec: \<^verbatim>\<open>monthUtils.addMonths\<close> and \<^verbatim>\<open>monthUtils.lastDayOfMonth\<close> of
  \<^verbatim>\<open>shared/months\<close>, whose source is not in the repository's files. The spec has
  \<open>getNextInterestDate\<close> advance exactly one calendar month and, without a posting day,
  return the last calendar day of that month. \<open>addMonths\<close> yields the month as
  \<^verbatim>\<open>yyyy-MM\<close>, which is what the slices \<^verbatim>\<open>(0, 4)\<close> and \<^verbatim>\<open>(5, 7)\<close> of its caller read;
  \<open>lastDayOfMonth\<close> yields a day \<^verbatim>\<open>yyyy-MM-dd\<close>. A string that is neither a day
  \<^verbatim>\<open>YYYY-MM-DD\<close> of the calendar nor a month \<^verbatim>\<open>YYYY-MM\<close> has no result (\<open>None\<close>).
\<close>

definition all_digits :: "string \<Rightarrow> bool" where
  "all_digits s \<longleftrightarrow> s \<noteq> [] \<and> filter is_digit s = s"

definition parse_month :: "string \<Rightarrow> (int \<times> int) option" where
  "parse_month s =
     (if length s = 7 \<and> all_digits (take 4 s) \<and> s ! 4 = CHR ''-'' \<and> all_digits (drop 5 s) then
        (let y = int (digits_val (take 4 s)); m = int (digits_val (drop 5 s))
         in if 1 \<le> m \<and> m \<le> 12 then Some (y, m) else None)
      else None)"

definition parse_day :: "string \<Rightarrow> (int \<times> int \<times> int) option" where
  "parse_day s =
     (if length s = 10 \<and> s ! 7 = CHR ''-'' \<and> all_digits (drop 8 s) then
        (case parse_month (take 7 s) of
           None \<Rightarrow> None
         | Some (y, m) \<Rightarrow>
             (let d = int (digits_val (drop 8 s))
              in if 1 \<le> d \<and> d \<le> days_in_month y m then Some (y, m, d) else None))
      else None)"

definition format_month :: "int \<Rightarrow> int \<Rightarrow> string" where
  "format_month y m =
     padStart 4 CHR ''0'' (String_int y) @ ''-'' @ padStart 2 CHR ''0'' (String_int m)"

definition format_day :: "int \<Rightarrow> int \<Rightarrow> int \<Rightarrow> string" where
  "format_day y m d = format_month y m @ ''-'' @ padStart 2 CHR ''0'' (String_int d)"

definition month_of :: "string \<Rightarrow> (int \<times> int) option" where
  "month_of s =
     (case parse_day s of
        Some (y, m, d) \<Rightarrow> Some (y, m)
      | None \<Rightarrow> parse_month s)"

definition monthUtils_addMonths :: "string \<Rightarrow> int \<Rightarrow> string option" where
  "monthUtils_addMonths month n =
     (case month_of month of
        None \<Rightarrow> None
      | Some (y, m) \<Rightarrow>
          (let k = y * 12 + (m - 1) + n in Some (format_month (k div 12) (k mod 12 + 1))))"

definition monthUtils_lastDayOfMonth :: "string \<Rightarrow> string option" where
  "monthUtils_lastDayOfMonth month =
     (case month_of month of
        None \<Rightarrow> None
      | Some (y, m) \<Rightarrow> Some (format_day y m (days_in_month y m)))"

text \<open>The calendar month after a month, for stating where the posting date lands.\<close>

definition next_month :: "int \<times> int \<Rightarrow> int \<times> int" where
  "next_month ym = (case ym of (y, m) \<Rightarrow> if m = 12 then (y + 1, 1) else (y, m + 1))"

subsection \<open>Posting date calculator (interest-automation.ts)\<close>

text \<open>
  \<open>today\<close> is what \<^verbatim>\<open>monthUtils.currentDay()\<close> returns. \<^verbatim>\<open>fromDate || currentDay()\<close> takes
  the current day for a missing and for an empty \<open>fromDate\<close>. The result is \<open>None\<close> when
  the month utilities have none.
\<close>

definition getNextInterestDate :: "string \<Rightarrow> int option \<Rightarrow> string option \<Rightarrow> string option" where
  "getNextInterestDate today interestPostingDay fromDate =
     (let current = (case fromDate of None \<Rightarrow> today | Some d \<Rightarrow> if d = [] then today else d)
      in case monthUtils_addMonths current 1 of
           None \<Rightarrow> None
         | Some nextMonth \<Rightarrow>
             (case interestPostingDay of
                None \<Rightarrow> monthUtils_lastDayOfMonth nextMonth
              | Some postingDay \<Rightarrow>
                  (let year = parseInt (slice nextMonth 0 4);
                       month = parseInt (slice nextMonth 5 7);
                       lastDay = Date_day0 year month;
                       day = Math_min (Some postingDay) lastDay
                   in Some (String_num year @ ''-'' @ padStart 2 CHR ''0'' (String_num month)
                            @ ''-'' @ padStart 2 CHR ''0'' (String_num day)))))"

section \<open>The ledger storage\<close>

text \<open>
  Modelled from the spec: the storage module \<^verbatim>\<open>../db\<close> (\<^verbatim>\<open>db.first\<close>, \<^verbatim>\<open>db.all\<close>, \<^verbatim>\<open>db.insert\<close>,
  \<^verbatim>\<open>db.insertWithUUID\<close>, \<^verbatim>\<open>db.insertPayee\<close>, \<^verbatim>\<open>db.insertTransaction\<close>, \<^verbatim>\<open>db.update\<close>,
  \<^verbatim>\<open>db.runQuery\<close>, \<^verbatim>\<open>db.toDateRepr\<close>) is not in the repository's files. The spec (section 6)
  gives it as tables with insert, update and lookup; the SQL texts of the callers say which
  rows a query reads. A table is the list of its rows in storage order: an insert appends
  a row, an update rewrites the rows it selects in place, a query without \<^verbatim>\<open>ORDER BY\<close>
  answers in storage order and \<^verbatim>\<open>db.first\<close> is its first row. A row that is inserted
  without an id gets one from the same source as \<^verbatim>\<open>uuidv4()\<close>.
\<close>

type_synonym id = string

text \<open>
  The \<open>value\<close> column of a rule action holds a text; the text
  \<^verbatim>\<open>JSON.stringify({apr, interestScheme, compoundingFrequency})\<close> is kept as the triple it
  encodes.
\<close>

datatype cell = Text string | InterestConfig real string string

record rule_row =
  rule_id :: id
  rule_stage :: "string option"

record condition_row =
  cond_id :: id
  cond_rule :: id
  cond_field :: string
  cond_op :: string
  cond_value :: string

record action_row =
  act_id :: id
  act_rule :: id
  act_field :: string
  act_op :: string
  act_value :: cell

record schedule_row =
  sched_id :: id
  sched_rule :: id
  sched_active :: int
  sched_completed :: int
  sched_posts_transaction :: int
  sched_name :: string

record next_date_row =
  nd_id :: id
  nd_schedule_id :: id
  nd_local_next_date :: int
  nd_local_next_date_ts :: int
  nd_base_next_date :: int
  nd_base_next_date_ts :: int

record payee_row =
  payee_id :: id
  payee_name :: string

record category_row =
  cat_id :: id
  cat_name :: string
  cat_tombstone :: bool

record account_row =
  acct_id :: id
  acct_name :: string
  acct_offbudget :: bool
  acct_closed :: bool
  acct_tombstone :: bool
  acct_is_debt :: bool

record transaction_row =
  tx_id :: id
  tx_acct :: id
  tx_amount :: int
  tx_payee :: "id option"
  tx_category :: "id option"
  tx_date :: string
  tx_cleared :: bool
  tx_notes :: "string option"
  tx_tombstone :: bool

record ledger =
  accounts :: "account_row list"
  transactions :: "transaction_row list"
  payees :: "payee_row list"
  categories :: "category_row list"
  rules :: "rule_row list"
  rule_conditions :: "condition_row list"
  rule_actions :: "action_row list"
  schedules :: "schedule_row list"
  schedules_next_date :: "next_date_row list"
  uuid_count :: nat

text \<open>
  What the host answers during a call: \<^verbatim>\<open>Math.pow\<close> and \<^verbatim>\<open>Math.sqrt\<close> (both
  implementation-approximated), the conversion of a number to a string (template
  literals), \<^verbatim>\<open>Intl.NumberFormat\<close> for US dollars, \<^verbatim>\<open>toFixed(2)\<close>, the time value of
  \<^verbatim>\<open>new Date(string)\<close> in milliseconds (\<open>None\<close> is \<^verbatim>\<open>NaN\<close>, an invalid date), the current day
  (\<^verbatim>\<open>monthUtils.currentDay()\<close>), the day string that \<^verbatim>\<open>monthUtils.dayFromDate\<close> makes of a date
  (the spec does not describe it), the clock (\<^verbatim>\<open>Date.now()\<close>) and the sequence of
  identifiers that \<^verbatim>\<open>uuidv4()\<close> draws; \<open>uuid_count\<close> of the ledger counts the draws made.
\<close>

record host =
  Math_pow :: math_pow
  Math_sqrt :: "real \<Rightarrow> real"
  Date_getTime :: "string \<Rightarrow> real option"
  Number_toString :: "real \<Rightarrow> string"
  Intl_formatUSD :: "real \<Rightarrow> string"
  Number_toFixed2 :: "real \<Rightarrow> string"
  currentDay :: string
  monthUtils_dayFromDate :: "string \<Rightarrow> string"
  Date_now :: int
  uuid_seq :: "nat \<Rightarrow> id"

definition uuidv4 :: "host \<Rightarrow> ledger \<Rightarrow> id \<times> ledger" where
  "uuidv4 h st = (uuid_seq h (uuid_count st), st\<lparr>uuid_count := uuid_count st + 1\<rparr>)"

definition db_first :: "'a list \<Rightarrow> 'a option" where
  "db_first rows = (case rows of [] \<Rightarrow> None | r # _ \<Rightarrow> Some r)"

definition toDateRepr :: "string \<Rightarrow> int" where
  \<comment> \<open>a day \<^verbatim>\<open>yyyy-MM-dd\<close> as the integer \<open>yyyyMMdd\<close>\<close>
  "toDateRepr day = int (digits_val (filter (\<lambda>c. c \<noteq> CHR ''-'') day))"

definition insertPayee :: "host \<Rightarrow> string \<Rightarrow> ledger \<Rightarrow> id \<times> ledger" where
  "insertPayee h name st =
     (let (newId, st1) = uuidv4 h st
      in (newId, st1\<lparr>payees := payees st1 @ [\<lparr>payee_id = newId, payee_name = name\<rparr>]\<rparr>))"

definition insert_rule :: "rule_row \<Rightarrow> ledger \<Rightarrow> ledger" where
  "insert_rule r st = st\<lparr>rules := rules st @ [r]\<rparr>"

definition insert_condition :: "host \<Rightarrow> id \<Rightarrow> string \<Rightarrow> string \<Rightarrow> string \<Rightarrow> ledger \<Rightarrow> ledger" where
  "insert_condition h rule field op val st =
     (let (newId, st1) = uuidv4 h st
      in st1\<lparr>rule_conditions := rule_conditions st1 @
           [\<lparr>cond_id = newId, cond_rule = rule, cond_field = field, cond_op = op,
             cond_value = val\<rparr>]\<rparr>)"

definition insert_action :: "host \<Rightarrow> id \<Rightarrow> string \<Rightarrow> string \<Rightarrow> cell \<Rightarrow> ledger \<Rightarrow> ledger" where
  "insert_action h rule field op val st =
     (let (newId, st1) = uuidv4 h st
      in st1\<lparr>rule_actions := rule_actions st1 @
           [\<lparr>act_id = newId, act_rule = rule, act_field = field, act_op = op, act_value = val\<rparr>]\<rparr>)"

definition insert_schedule :: "schedule_row \<Rightarrow> ledger \<Rightarrow> ledger" where
  "insert_schedule s st = st\<lparr>schedules := schedules st @ [s]\<rparr>"

definition insertWithUUID_next_date ::
    "host \<Rightarrow> id \<Rightarrow> int \<Rightarrow> int \<Rightarrow> int \<Rightarrow> int \<Rightarrow> ledger \<Rightarrow> id \<times> ledger" where
  "insertWithUUID_next_date h schedule_id local_next_date local_next_date_ts base_next_date
       base_next_date_ts st =
     (let (newId, st1) = uuidv4 h st
      in (newId, st1\<lparr>schedules_next_date := schedules_next_date st1 @
           [\<lparr>nd_id = newId, nd_schedule_id = schedule_id, nd_local_next_date = local_next_date,
             nd_local_next_date_ts = local_next_date_ts, nd_base_next_date = base_next_date,
             nd_base_next_date_ts = base_next_date_ts\<rparr>]\<rparr>))"

definition update_action_value :: "id \<Rightarrow> cell \<Rightarrow> ledger \<Rightarrow> ledger" where
  \<comment> \<open>\<^verbatim>\<open>db.update('rule_actions', {id, value})\<close>\<close>
  "update_action_value i val st =
     st\<lparr>rule_actions := map (\<lambda>a. if act_id a = i then a\<lparr>act_value := val\<rparr> else a) (rule_actions st)\<rparr>"

definition update_next_date :: "id \<Rightarrow> int \<Rightarrow> int \<Rightarrow> int \<Rightarrow> int \<Rightarrow> ledger \<Rightarrow> ledger" where
  \<comment> \<open>\<^verbatim>\<open>UPDATE schedules_next_date SET ... WHERE schedule_id = ?\<close>\<close>
  "update_next_date schedule_id local_next_date local_next_date_ts base_next_date
       base_next_date_ts st =
     st\<lparr>schedules_next_date :=
          map (\<lambda>n. if nd_schedule_id n = schedule_id
                    then n\<lparr>nd_local_next_date := local_next_date,
                           nd_local_next_date_ts := local_next_date_ts,
                           nd_base_next_date := base_next_date,
                           nd_base_next_date_ts := base_next_date_ts\<rparr>
                    else n)
              (schedules_next_date st)\<rparr>"

definition insertTransaction :: "host \<Rightarrow> transaction_row \<Rightarrow> ledger \<Rightarrow> id \<times> ledger" where
  \<comment> \<open>the row's \<open>tx_id\<close> is replaced by the identifier drawn\<close>
  "insertTransaction h row st =
     (let (newId, st1) = uuidv4 h st
      in (newId, st1\<lparr>transactions := transactions st1 @ [row\<lparr>tx_id := newId\<rparr>]\<rparr>))"

definition sql_sum :: "int list \<Rightarrow> int option" where
  \<comment> \<open>\<^verbatim>\<open>SUM\<close>: \<^verbatim>\<open>NULL\<close> over no rows\<close>
  "sql_sum xs = (if xs = [] then None else Some (sum_list xs))"

definition or_zero :: "int option \<Rightarrow> int" where
  \<comment> \<open>\<^verbatim>\<open>result?.balance || 0\<close>\<close>
  "or_zero v = (case v of None \<Rightarrow> 0 | Some b \<Rightarrow> if b = 0 then 0 else b)"

section \<open>Interest schedule manager and interest poster (interest-automation.ts)\<close>

datatype error = NothingToPost | MonthUtilsFailed

record InterestScheduleParams =
  isp_accountId :: id
  isp_apr :: real
  isp_interestScheme :: string
  isp_compoundingFrequency :: string
  isp_interestPostingDay :: "int option"
  isp_interestCategoryId :: id

text \<open>
  The lookup of \<open>setupInterestSchedule\<close>: schedules joined to their rule and to the rule's
  conditions, kept where the condition is on \<^verbatim>\<open>acct\<close> with the account as value and the rule
  has no stage. The query has \<^verbatim>\<open>LIMIT 1\<close> and no \<^verbatim>\<open>ORDER BY\<close>, so the database may answer
  with any matching row; the rows are listed here in storage order, schedules first, and
  \<open>db_first\<close> takes the first.
\<close>

definition schedule_match :: "id \<Rightarrow> schedule_row \<times> rule_row \<times> condition_row \<Rightarrow> bool" where
  "schedule_match account row =
     (case row of (s, r, rc) \<Rightarrow>
        rule_id r = sched_rule s \<and> cond_rule rc = rule_id r
        \<and> cond_field rc = ''acct'' \<and> cond_value rc = account \<and> rule_stage r = None)"

definition find_schedules :: "ledger \<Rightarrow> id \<Rightarrow> (id \<times> id) list" where
  "find_schedules st account =
     map (\<lambda>(s, r, rc). (sched_id s, sched_rule s))
       (filter (schedule_match account)
          (List.product (schedules st) (List.product (rules st) (rule_conditions st))))"

definition find_action :: "ledger \<Rightarrow> id \<Rightarrow> string \<Rightarrow> id option" where
  \<comment> \<open>\<^verbatim>\<open>SELECT id FROM rule_actions WHERE rule = ? AND field = ?\<close>, first row\<close>
  "find_action st rule field =
     db_first (map act_id (filter (\<lambda>a. act_rule a = rule \<and> act_field a = field) (rule_actions st)))"

definition updateInterestSchedule ::
    "host \<Rightarrow> id \<Rightarrow> id \<Rightarrow> InterestScheduleParams \<Rightarrow> ledger \<Rightarrow> (error + unit) \<times> ledger" where
  "updateInterestSchedule h scheduleId ruleId p st =
     (let configAction = find_action st ruleId ''debt_interest_config'';
          st1 = (case configAction of
                   Some i \<Rightarrow> update_action_value i
                     (InterestConfig (isp_apr p) (isp_interestScheme p) (isp_compoundingFrequency p)) st
                 | None \<Rightarrow> st);
          categoryAction = find_action st1 ruleId ''category'';
          st2 = (case categoryAction of
                   Some i \<Rightarrow> update_action_value i (Text (isp_interestCategoryId p)) st1
                 | None \<Rightarrow> st1)
      in case getNextInterestDate (currentDay h) (isp_interestPostingDay p) None of
           None \<Rightarrow> (Inl MonthUtilsFailed, st2)
         | Some nextDate \<Rightarrow>
             (let now = Date_now h
              in (Inr (), update_next_date scheduleId
                            (toDateRepr (monthUtils_dayFromDate h nextDate)) now
                            (toDateRepr (monthUtils_dayFromDate h nextDate)) now st2)))"

definition setupInterestSchedule ::
    "host \<Rightarrow> InterestScheduleParams \<Rightarrow> ledger \<Rightarrow> (error + id) \<times> ledger" where
  "setupInterestSchedule h p st =
     (case db_first (find_schedules st (isp_accountId p)) of
        Some (existingId, existingRule) \<Rightarrow>
          (case updateInterestSchedule h existingId existingRule p st of
             (Inl e, st') \<Rightarrow> (Inl e, st')
           | (Inr u, st') \<Rightarrow> (Inr existingId, st'))
      | None \<Rightarrow>
          (let (scheduleId, st1) = uuidv4 h st;
               (ruleId, st2) = uuidv4 h st1;
               interestPayee = db_first (filter (\<lambda>y. payee_name y = ''Interest Charge'') (payees st2));
               (interestPayeeId, st3) =
                 (case interestPayee of
                    Some y \<Rightarrow> (payee_id y, st2)
                  | None \<Rightarrow> insertPayee h ''Interest Charge'' st2);
               st4 = insert_rule \<lparr>rule_id = ruleId, rule_stage = None\<rparr> st3;
               st5 = insert_condition h ruleId ''acct'' ''is'' (isp_accountId p) st4;
               st6 = insert_action h ruleId ''payee'' ''set'' (Text interestPayeeId) st5;
               st7 = insert_action h ruleId ''category'' ''set'' (Text (isp_interestCategoryId p)) st6;
               st8 = insert_action h ruleId ''debt_interest_config'' ''set''
                       (InterestConfig (isp_apr p) (isp_interestScheme p)
                          (isp_compoundingFrequency p)) st7
           in case getNextInterestDate (currentDay h) (isp_interestPostingDay p) None of
                None \<Rightarrow> (Inl MonthUtilsFailed, st8)
              | Some nextDate \<Rightarrow>
                  (let st9 = insert_schedule
                         \<lparr>sched_id = scheduleId, sched_rule = ruleId, sched_active = 1,
                           sched_completed = 0, sched_posts_transaction = 1,
                           sched_name = ''Interest for Account '' @ isp_accountId p\<rparr> st8;
                       now = Date_now h;
                       (ndId, st10) = insertWithUUID_next_date h scheduleId
                                        (toDateRepr (monthUtils_dayFromDate h nextDate)) now
                                        (toDateRepr (monthUtils_dayFromDate h nextDate)) now st9
                   in (Inr scheduleId, st10))))"

definition account_balance_query :: "ledger \<Rightarrow> id \<Rightarrow> int option" where
  \<comment> \<open>\<^verbatim>\<open>SELECT sum(amount) as balance FROM transactions WHERE acct = ? AND tombstone = 0\<close>\<close>
  "account_balance_query st account =
     sql_sum (map tx_amount (filter (\<lambda>t. tx_acct t = account \<and> \<not> tx_tombstone t) (transactions st)))"

definition postInterestTransaction ::
    "host \<Rightarrow> InterestScheduleParams \<Rightarrow> string option \<Rightarrow> ledger \<Rightarrow> (error + id) \<times> ledger" where
  "postInterestTransaction h p date st =
     (let balanceResult = account_balance_query st (isp_accountId p);
          balance = or_zero balanceResult;
          interestAmount = calculateInterest (Math_pow h) (of_int balance) (isp_apr p)
                             (isp_interestScheme p) (isp_compoundingFrequency p)
      in if interestAmount = 0 then (Inl NothingToPost, st)
         else
           (let interestPayee = db_first (filter (\<lambda>y. payee_name y = ''Interest Charge'') (payees st));
                (interestPayeeId, st1) =
                  (case interestPayee of
                     Some y \<Rightarrow> (payee_id y, st)
                   | None \<Rightarrow> insertPayee h ''Interest Charge'' st);
                (transactionId, st2) = insertTransaction h
                  \<lparr>tx_id = [], tx_acct = isp_accountId p, tx_amount = - interestAmount,
                    tx_payee = Some interestPayeeId, tx_category = Some (isp_interestCategoryId p),
                    tx_date = (case date of None \<Rightarrow> currentDay h
                               | Some d \<Rightarrow> if d = [] then currentDay h else d),
                    tx_cleared = True,
                    tx_notes = Some (''Interest charge ('' @ Number_toString h (isp_apr p)
                                     @ ''% APR, '' @ isp_interestScheme p @ '')''),
                    tx_tombstone = False\<rparr> st1
            in (Inr transactionId, st2)))"


text \<open>
  The schedule rows that govern an account: those the lookup of \<open>setupInterestSchedule\<close>
  can answer with.
\<close>

definition governing_schedules :: "ledger \<Rightarrow> id \<Rightarrow> schedule_row list" where
  "governing_schedules st account =
     filter (\<lambda>s. list_ex (\<lambda>r. list_ex (\<lambda>rc. schedule_match account (s, r, rc))
                               (rule_conditions st)) (rules st))
       (schedules st)"

text \<open>What \<open>updateInterestSchedule\<close> writes into the actions and into the next dates.\<close>

definition updated_actions :: "id option \<Rightarrow> id option \<Rightarrow> InterestScheduleParams \<Rightarrow> action_row list \<Rightarrow> action_row list" where
  "updated_actions cfg cat p acts =
     map (\<lambda>a. if Some (act_id a) = cat then a\<lparr>act_value := Text (isp_interestCategoryId p)\<rparr>
               else if Some (act_id a) = cfg then
                 a\<lparr>act_value := InterestConfig (isp_apr p) (isp_interestScheme p) (isp_compoundingFrequency p)\<rparr>
               else a) acts"

definition updated_next_dates :: "id \<Rightarrow> int \<Rightarrow> int \<Rightarrow> next_date_row list \<Rightarrow> next_date_row list" where
  "updated_next_dates sid d now rows =
     map (\<lambda>n. if nd_schedule_id n = sid
               then n\<lparr>nd_local_next_date := d, nd_local_next_date_ts := now,
                      nd_base_next_date := d, nd_base_next_date_ts := now\<rparr>
               else n) rows"

text \<open>The interest that \<open>postInterestTransaction\<close> computes from the stored balance.\<close>

definition computed_interest :: "host \<Rightarrow> InterestScheduleParams \<Rightarrow> ledger \<Rightarrow> int" where
  "computed_interest h p st =
     calculateInterest (Math_pow h) (of_int (or_zero (account_balance_query st (isp_accountId p))))
       (isp_apr p) (isp_interestScheme p) (isp_compoundingFrequency p)"

subsection \<open>One host and some ledgers, for closed instances\<close>

definition days_from_civil :: "int \<times> int \<times> int \<Rightarrow> int" where
  \<comment> \<open>days from 1970-01-01 to a day of the Gregorian calendar\<close>
  "days_from_civil ymd =
     (case ymd of (y, m, d) \<Rightarrow>
        (let y1 = (if m \<le> 2 then y - 1 else y);
             era = y1 div 400;
             yoe = y1 - era * 400;
             doy = (153 * (if 2 < m then m - 3 else m + 9) + 2) div 5 + d - 1;
             doe = yoe * 365 + yoe div 4 - yoe div 100 + doy
         in era * 146097 + doe - 719468))"

definition demo_host :: host where
  "demo_host = \<lparr>Math_pow = pow_rounded, Math_sqrt = (\<lambda>x. fl (sqrt x)),
     Date_getTime = (\<lambda>s. map_option (\<lambda>ymd. of_int (days_from_civil ymd * 86400000)) (parse_day s)),
     Number_toString = (\<lambda>x. String_int \<lfloor>x\<rfloor>),
     Intl_formatUSD = (\<lambda>x. CHR ''$'' # String_int \<lfloor>x\<rfloor>),
     Number_toFixed2 = (\<lambda>x. String_int \<lfloor>x\<rfloor>),
     currentDay = ''2024-01-15'', monthUtils_dayFromDate = (\<lambda>d. d), Date_now = 1705312800000,
     uuid_seq = (\<lambda>k. ''uuid-'' @ digits k)\<rparr>"

definition empty_ledger :: ledger where
  "empty_ledger = \<lparr>accounts = [], transactions = [], payees = [], categories = [], rules = [],
     rule_conditions = [], rule_actions = [], schedules = [], schedules_next_date = [],
     uuid_count = 0\<rparr>"

definition demo_params :: InterestScheduleParams where
  "demo_params = \<lparr>isp_accountId = ''acct-1'', isp_apr = 18, isp_interestScheme = ''simple'',
     isp_compoundingFrequency = ''monthly'', isp_interestPostingDay = Some 15,
     isp_interestCategoryId = ''cat-interest''\<rparr>"

text \<open>
  A ledger in which the account \<^verbatim>\<open>acct-1\<close> has an ordinary schedule (rent, with a payee action
  only) and no interest schedule, and one in which it has two schedules.
\<close>

definition rent_ledger :: ledger where
  "rent_ledger = empty_ledger
     \<lparr>rules := [\<lparr>rule_id = ''rule-rent'', rule_stage = None\<rparr>],
      rule_conditions := [\<lparr>cond_id = ''c1'', cond_rule = ''rule-rent'', cond_field = ''acct'',
                           cond_op = ''is'', cond_value = ''acct-1''\<rparr>],
      rule_actions := [\<lparr>act_id = ''a1'', act_rule = ''rule-rent'', act_field = ''payee'',
                        act_op = ''set'', act_value = Text ''landlord''\<rparr>],
      schedules := [\<lparr>sched_id = ''sched-rent'', sched_rule = ''rule-rent'', sched_active = 1,
                     sched_completed = 0, sched_posts_transaction = 0, sched_name = ''Rent''\<rparr>],
      schedules_next_date := [\<lparr>nd_id = ''n1'', nd_schedule_id = ''sched-rent'',
                               nd_local_next_date = 20240201, nd_local_next_date_ts = 0,
                               nd_base_next_date = 20240201, nd_base_next_date_ts = 0\<rparr>]\<rparr>"

text \<open>
  A ledger in which the account \<^verbatim>\<open>acct-1\<close> has an interest schedule whose rule carries a payee,
  a category and a \<^verbatim>\<open>debt_interest_config\<close> action, at 12 percent compounded monthly.
\<close>

definition loan_ledger :: ledger where
  "loan_ledger = empty_ledger
     \<lparr>rules := [\<lparr>rule_id = ''rule-loan'', rule_stage = None\<rparr>],
      rule_conditions := [\<lparr>cond_id = ''c1'', cond_rule = ''rule-loan'', cond_field = ''acct'',
                           cond_op = ''is'', cond_value = ''acct-1''\<rparr>],
      rule_actions := [\<lparr>act_id = ''a1'', act_rule = ''rule-loan'', act_field = ''payee'',
                        act_op = ''set'', act_value = Text ''payee-interest''\<rparr>,
                       \<lparr>act_id = ''a2'', act_rule = ''rule-loan'', act_field = ''category'',
                        act_op = ''set'', act_value = Text ''cat-old''\<rparr>,
                       \<lparr>act_id = ''a3'', act_rule = ''rule-loan'', act_field = ''debt_interest_config'',
                        act_op = ''set'', act_value = InterestConfig 12 ''compound_monthly'' ''monthly''\<rparr>],
      schedules := [\<lparr>sched_id = ''sched-loan'', sched_rule = ''rule-loan'', sched_active = 1,
                     sched_completed = 0, sched_posts_transaction = 1,
                     sched_name = ''Interest for Account acct-1''\<rparr>],
      schedules_next_date := [\<lparr>nd_id = ''n1'', nd_schedule_id = ''sched-loan'',
                               nd_local_next_date = 20240115, nd_local_next_date_ts = 0,
                               nd_base_next_date = 20240115, nd_base_next_date_ts = 0\<rparr>]\<rparr>"

definition two_schedules_ledger :: ledger where
  "two_schedules_ledger = rent_ledger
     \<lparr>rules := rules rent_ledger @ [\<lparr>rule_id = ''rule-gym'', rule_stage = None\<rparr>],
      rule_conditions := rule_conditions rent_ledger @
         [\<lparr>cond_id = ''c2'', cond_rule = ''rule-gym'', cond_field = ''acct'',
           cond_op = ''is'', cond_value = ''acct-1''\<rparr>],
      schedules := schedules rent_ledger @
         [\<lparr>sched_id = ''sched-gym'', sched_rule = ''rule-gym'', sched_active = 1,
           sched_completed = 0, sched_posts_transaction = 0, sched_name = ''Gym''\<rparr>]\<rparr>"

section \<open>Debt candidate scorer (debt-detection.ts)\<close>

text \<open>
  \<^verbatim>\<open>toLowerCase\<close> and SQL's \<^verbatim>\<open>LOWER\<close> on ASCII letters; \<^verbatim>\<open>includes\<close>, and \<^verbatim>\<open>LIKE '%k%'\<close> for a
  keyword \<open>k\<close> without wildcard characters, as containment of a contiguous substring.
\<close>

definition toLowerCase :: "string \<Rightarrow> string" where
  "toLowerCase s =
     map (\<lambda>c. if CHR ''A'' \<le> c \<and> c \<le> CHR ''Z'' then char_of (of_char c + (32::nat)) else c) s"

definition str_includes :: "string \<Rightarrow> string \<Rightarrow> bool" where
  "str_includes s keyword \<longleftrightarrow> sublist keyword s"

definition like_any :: "string list \<Rightarrow> string option \<Rightarrow> bool" where
  \<comment> \<open>\<^verbatim>\<open>LOWER(x) LIKE ? OR ...\<close>, one pattern \<^verbatim>\<open>%k%\<close> per keyword; \<^verbatim>\<open>NULL\<close> matches nothing\<close>
  "like_any keywords x =
     (case x of None \<Rightarrow> False | Some v \<Rightarrow> list_ex (\<lambda>k. str_includes (toLowerCase v) k) keywords)"

definition order_by_date_desc :: "('a \<Rightarrow> string) \<Rightarrow> 'a list \<Rightarrow> 'a list" where
  \<comment> \<open>\<^verbatim>\<open>ORDER BY date DESC\<close>; rows of one date stay in storage order\<close>
  "order_by_date_desc date rows = rev (sort_key date (rev rows))"

datatype ConfidenceLevel = high | medium | low

datatype DebtType = credit_card | mortgage | auto_loan | student_loan | line_of_credit | personal_loan

datatype PaymentFrequency = monthly | biweekly | irregular

record DebtCandidate =
  dc_accountId :: id
  dc_accountName :: string
  dc_balance :: int
  dc_currentlyOffBudget :: bool
  dc_confidence :: ConfidenceLevel
  dc_score :: int
  dc_reasons :: "string list"
  dc_suggestedDebtType :: DebtType
  dc_detectedAPR :: "real option"

record PaymentPattern =
  pp_accountId :: id
  pp_averagePayment :: real
  pp_paymentFrequency :: PaymentFrequency
  pp_consistency :: real
  pp_paymentCount :: nat

record InterestInfo =
  ii_hasInterest :: bool
  ii_count :: nat
  ii_estimatedAPR :: "real option"

definition getAccountBalance :: "ledger \<Rightarrow> id \<Rightarrow> int" where
  "getAccountBalance st account = or_zero (account_balance_query st account)"

definition daysBetween :: "host \<Rightarrow> string \<Rightarrow> string \<Rightarrow> real option" where
  "daysBetween h date1 date2 =
     (case (Date_getTime h date1, Date_getTime h date2) of
        (Some d1, Some d2) \<Rightarrow>
          (let diffTime = \<bar>fsub d1 d2\<bar>
           in Some (of_int \<lceil>fdiv diffTime (1000 * 60 * 60 * 24)\<rceil>))
      | _ \<Rightarrow> None)"

definition formatCurrency :: "host \<Rightarrow> real \<Rightarrow> string" where
  "formatCurrency h amountInCents =
     (let dollars = fdiv \<bar>amountInCents\<bar> 100 in Intl_formatUSD h dollars)"

fun gaps_of :: "host \<Rightarrow> string list \<Rightarrow> real option list" where
  \<comment> \<open>the loop over \<open>i\<close> from 0 to \<open>length - 2\<close>\<close>
  "gaps_of h (d1 # d2 # ds) = daysBetween h d1 d2 # gaps_of h (d2 # ds)"
| "gaps_of h ds = []"

definition sum_gaps :: "real option list \<Rightarrow> real option" where
  \<comment> \<open>\<^verbatim>\<open>gaps.reduce((a, b) => a + b, 0)\<close>; a \<^verbatim>\<open>NaN\<close> gap makes the sum \<^verbatim>\<open>NaN\<close>\<close>
  "sum_gaps gaps =
     foldl (\<lambda>a b. case (a, b) of (Some x, Some y) \<Rightarrow> Some (fadd x y) | _ \<Rightarrow> None) (Some 0) gaps"

definition analyzePaymentPatterns :: "host \<Rightarrow> ledger \<Rightarrow> id \<Rightarrow> PaymentPattern" where
  "analyzePaymentPatterns h st account =
     (let payments = take 12 (order_by_date_desc tx_date
            (filter (\<lambda>t. tx_acct t = account \<and> 0 < tx_amount t \<and> \<not> tx_tombstone t)
               (transactions st)))
      in if length payments < 2 then
           \<lparr>pp_accountId = account, pp_averagePayment = 0, pp_paymentFrequency = irregular,
             pp_consistency = 0, pp_paymentCount = length payments\<rparr>
         else
           (let gaps = gaps_of h (map tx_date payments);
                avgGap = (case sum_gaps gaps of
                            None \<Rightarrow> None
                          | Some sm \<Rightarrow> Some (fdiv sm (of_nat (length gaps))));
                frequency = (case avgGap of
                               None \<Rightarrow> irregular
                             | Some g \<Rightarrow> if g < 18 then biweekly else if g < 35 then monthly
                                          else irregular);
                amounts = map (\<lambda>t. of_int (tx_amount t)) payments;
                avgAmount = fdiv (foldl fadd 0 amounts) (of_nat (length amounts));
                variance = fdiv (foldl (\<lambda>sm amt. fadd sm (Math_pow h (fsub amt avgAmount) 2))
                                   0 amounts) (of_nat (length amounts));
                stdDev = Math_sqrt h variance;
                consistency = (if 0 < avgAmount then fsub 1 (min (fdiv stdDev avgAmount) 1) else 0)
            in \<lparr>pp_accountId = account, pp_averagePayment = avgAmount,
                 pp_paymentFrequency = frequency, pp_consistency = consistency,
                 pp_paymentCount = length payments\<rparr>))"

definition interestKeywords :: "string list" where
  "interestKeywords = [''interest'', ''finance charge'', ''apr'', ''interest charge'',
     ''monthly interest'']"

definition interest_rows :: "ledger \<Rightarrow> id \<Rightarrow> transaction_row list" where
  \<comment> \<open>transactions left-joined to their payee, one row for each payee of that id and one
      row with a \<^verbatim>\<open>NULL\<close> name when there is none\<close>
  "interest_rows st account =
     take 12 (order_by_date_desc tx_date
       (concat (map (\<lambda>t.
          map (\<lambda>name. t)
            (filter (\<lambda>name. tx_acct t = account \<and> \<not> tx_tombstone t \<and> tx_amount t < 0
                       \<and> (like_any interestKeywords name \<or> like_any interestKeywords (tx_notes t)))
               (case filter (\<lambda>y. Some (payee_id y) = tx_payee t) (payees st) of
                  [] \<Rightarrow> [None]
                | ys \<Rightarrow> map (\<lambda>y. Some (payee_name y)) ys)))
          (transactions st))))"

definition detectInterestTransactions :: "host \<Rightarrow> ledger \<Rightarrow> id \<Rightarrow> InterestInfo" where
  "detectInterestTransactions h st account =
     (let interestTransactions = interest_rows st account
      in if length interestTransactions = 0 then
           \<lparr>ii_hasInterest = False, ii_count = 0, ii_estimatedAPR = None\<rparr>
         else
           (let estimatedAPR =
                  (if 3 \<le> length interestTransactions then
                     (let avgMonthlyInterest =
                            fdiv \<bar>fdiv (foldl (\<lambda>sm t. fadd sm (of_int (tx_amount t))) 0
                                           interestTransactions)
                                    (of_nat (length interestTransactions))\<bar> 100;
                          balance = \<bar>fdiv (of_int (getAccountBalance st account)) 100\<bar>
                      in if 0 < balance \<and> 0 < avgMonthlyInterest then
                           (let monthlyRate = fdiv avgMonthlyInterest balance;
                                estimated = fmul (fmul monthlyRate 12) 100
                            in if fl (1 / 10) \<le> estimated \<and> estimated \<le> 50 then
                                 Some (fdiv (of_int (Math_round (fmul estimated 100))) 100)
                               else None)
                         else None)
                   else None)
            in \<lparr>ii_hasInterest = True, ii_count = length interestTransactions,
                 ii_estimatedAPR = estimatedAPR\<rparr>))"

definition debtCategoryKeywords :: "string list" where
  "debtCategoryKeywords = [''debt'', ''loan'', ''mortgage'', ''credit card'', ''interest'']"

definition checkDebtCategories :: "ledger \<Rightarrow> id \<Rightarrow> bool" where
  \<comment> \<open>\<^verbatim>\<open>COUNT(DISTINCT t.id)\<close> over transactions joined to their category is positive\<close>
  "checkDebtCategories st account =
     (0 < length (remdups (map tx_id
        (filter (\<lambda>t. tx_acct t = account \<and> \<not> tx_tombstone t
                   \<and> list_ex (\<lambda>c. Some (cat_id c) = tx_category t \<and> \<not> cat_tombstone c
                                  \<and> like_any debtCategoryKeywords (Some (cat_name c)))
                        (categories st))
           (transactions st)))))"

definition suggestDebtType :: "string \<Rightarrow> int \<Rightarrow> PaymentPattern \<Rightarrow> DebtType" where
  "suggestDebtType accountName balance pattern =
     (let nameLower = toLowerCase accountName
      in if str_includes nameLower ''credit card'' \<or> str_includes nameLower ''visa''
            \<or> str_includes nameLower ''mastercard'' \<or> str_includes nameLower ''discover''
            \<or> str_includes nameLower ''amex'' \<or> str_includes nameLower ''american express''
         then credit_card
         else if str_includes nameLower ''mortgage'' \<or> str_includes nameLower ''home loan''
            \<or> (balance < - 10000000 \<and> pp_paymentFrequency pattern = monthly)
         then mortgage
         else if str_includes nameLower ''auto'' \<or> str_includes nameLower ''car''
            \<or> str_includes nameLower ''vehicle''
         then auto_loan
         else if str_includes nameLower ''student'' \<or> str_includes nameLower ''education''
            \<or> str_includes nameLower ''tuition''
         then student_loan
         else if str_includes nameLower ''line of credit'' \<or> str_includes nameLower ''loc''
            \<or> str_includes nameLower ''heloc''
         then line_of_credit
         else personal_loan)"

definition debtKeywords :: "string list" where
  "debtKeywords = [''credit card'', ''visa'', ''mastercard'', ''discover'', ''amex'',
     ''american express'', ''loan'', ''mortgage'', ''student'', ''auto'', ''car payment'', ''debt'',
     ''line of credit'', ''loc'', ''heloc'']"

text \<open>
  The body of the loop of \<open>detectDebtAccounts\<close> for one account: \<open>None\<close> when the account
  is skipped (\<^verbatim>\<open>continue\<close>) or its score stays below 40, the candidate pushed otherwise.
\<close>

definition scoreAccount :: "host \<Rightarrow> ledger \<Rightarrow> account_row \<Rightarrow> DebtCandidate option" where
  \<open>scoreAccount h st account =
     (let balance = getAccountBalance st (acct_id account)
      in if 0 \<le> balance then None
         else
           (let (score1, reasons1) =
                  (if balance < - 100000 then
                     (30, [''Significant negative balance: '' @ formatCurrency h (of_int balance)])
                   else if balance < - 10000 then
                     (15, [''Negative balance: '' @ formatCurrency h (of_int balance)])
                   else (0, []));
                nameLower = toLowerCase (acct_name account);
                hasDebtKeyword = list_ex (\<lambda>keyword. str_includes nameLower keyword) debtKeywords;
                (score2, reasons2) =
                  (if hasDebtKeyword then
                     (score1 + 25, reasons1 @ [''Account name suggests debt: "'' @ acct_name account @ ''"''])
                   else (score1, reasons1));
                (score3, reasons3) =
                  (if acct_offbudget account then
                     (if hasDebtKeyword then
                        (score2 + 10 + 15, reasons2 @ [''Currently off-budget'',
                           ''Off-budget account with debt-related name''])
                      else (score2 + 10, reasons2 @ [''Currently off-budget'']))
                   else (score2, reasons2));
                pattern = analyzePaymentPatterns h st (acct_id account);
                (score4, reasons4) =
                  (if 3 \<le> pp_paymentCount pattern then
                     (if pp_paymentFrequency pattern = monthly \<and> fl (8 / 10) < pp_consistency pattern then
                        (score3 + 20, reasons3 @ [''Regular monthly payments (~''
                           @ formatCurrency h (pp_averagePayment pattern) @ '')''])
                      else if pp_paymentFrequency pattern = monthly
                              \<and> fl (6 / 10) < pp_consistency pattern then
                        (score3 + 10, reasons3 @ [''Semi-regular payments (''
                           @ String_int (int (pp_paymentCount pattern)) @ '' found)''])
                      else (score3, reasons3))
                   else (score3, reasons3));
                interestInfo = detectInterestTransactions h st (acct_id account);
                (score5, reasons5) =
                  (if ii_hasInterest interestInfo then
                     (score4 + 25,
                      reasons4 @ [''Interest charges detected (''
                           @ String_int (int (ii_count interestInfo)) @ '' transactions)'']
                        @ (case ii_estimatedAPR interestInfo of
                             None \<Rightarrow> []
                           | Some est \<Rightarrow> if est = 0 then []
                                         else [''Estimated APR: '' @ Number_toFixed2 h est @ ''%'']))
                   else (score4, reasons4));
                hasDebtCategory = checkDebtCategories st (acct_id account);
                (score, reasons) =
                  (if hasDebtCategory then
                     (score5 + 15, reasons5 @ [''Transactions categorized to debt-related categories''])
                   else (score5, reasons5));
                suggestedType = suggestDebtType (acct_name account) balance pattern;
                confidence = (if 70 \<le> score then high else if 50 \<le> score then medium else low)
            in if 40 \<le> score then
                 Some \<lparr>dc_accountId = acct_id account, dc_accountName = acct_name account,
                        dc_balance = balance, dc_currentlyOffBudget = acct_offbudget account,
                        dc_confidence = confidence, dc_score = score, dc_reasons = reasons,
                        dc_suggestedDebtType = suggestedType,
                        dc_detectedAPR = ii_estimatedAPR interestInfo\<rparr>
               else None))\<close>

definition scanAccounts :: "host \<Rightarrow> ledger \<Rightarrow> DebtCandidate list" where
  \<comment> \<open>the candidates in the order the loop pushes them\<close>
  "scanAccounts h st =
     List.map_filter (scoreAccount h st)
       (filter (\<lambda>a. \<not> acct_is_debt a \<and> \<not> acct_closed a \<and> \<not> acct_tombstone a) (accounts st))"

definition detectDebtAccounts :: "host \<Rightarrow> ledger \<Rightarrow> DebtCandidate list" where
  \<comment> \<open>\<^verbatim>\<open>candidates.sort((a, b) => b.score - a.score)\<close>: the stable sort by descending score\<close>
  "detectDebtAccounts h st = sort_key (\<lambda>c. - dc_score c) (scanAccounts h st)"

text \<open>A ledger with three accounts to scan, for closed instances.\<close>

definition cards_ledger :: ledger where
  "cards_ledger = empty_ledger
     \<lparr>accounts :=
        [\<lparr>acct_id = ''a1'', acct_name = ''Checking'', acct_offbudget = False, acct_closed = False,
          acct_tombstone = False, acct_is_debt = False\<rparr>,
         \<lparr>acct_id = ''a2'', acct_name = ''Visa Card'', acct_offbudget = False, acct_closed = False,
          acct_tombstone = False, acct_is_debt = False\<rparr>,
         \<lparr>acct_id = ''a3'', acct_name = ''Car Loan'', acct_offbudget = True, acct_closed = False,
          acct_tombstone = False, acct_is_debt = False\<rparr>],
      transactions :=
        [\<lparr>tx_id = ''t1'', tx_acct = ''a1'', tx_amount = 500000, tx_payee = None,
          tx_category = None, tx_date = ''2024-01-02'', tx_cleared = True, tx_notes = None,
          tx_tombstone = False\<rparr>,
         \<lparr>tx_id = ''t2'', tx_acct = ''a2'', tx_amount = - 250000, tx_payee = None,
          tx_category = None, tx_date = ''2024-01-03'', tx_cleared = True, tx_notes = None,
          tx_tombstone = False\<rparr>,
         \<lparr>tx_id = ''t3'', tx_acct = ''a3'', tx_amount = - 1200000, tx_payee = None,
          tx_category = None, tx_date = ''2024-01-04'', tx_cleared = True, tx_notes = None,
          tx_tombstone = False\<rparr>]\<rparr>"

section \<open>Rounding to binary64\<close>

lemma expo_bounds:
  assumes "x \<noteq> 0"
  shows "2 powi expo x \<le> \<bar>x\<bar>" and "\<bar>x\<bar> < 2 powi (expo x + 1)"
proof -
  have "2 powi expo x \<le> \<bar>x\<bar> \<and> \<bar>x\<bar> < 2 powi (expo x + 1)"
  proof (cases "1 \<le> \<bar>x\<bar>")
    case True
    define n where "n = \<lfloor>\<bar>x\<bar>\<rfloor>"
    have n: "0 < n" using True by (simp add: n_def)
    have e: "expo x = bitlen n - 1" using True by (simp add: expo_def n_def)
    have b1: "1 \<le> bitlen n" using n by (simp add: bitlen_alt_def)
    from bitlen_bounds[OF n] have lo: "2 ^ nat (bitlen n - 1) \<le> n" and hi: "n < 2 ^ nat (bitlen n)"
      by auto
    have "(2::real) powi expo x = 2 ^ nat (bitlen n - 1)"
      using b1 by (simp add: e power_int_def)
    also have "\<dots> \<le> of_int n" using lo
      by (metis of_int_le_iff of_int_numeral of_int_power)
    also have "\<dots> \<le> \<bar>x\<bar>" by (simp add: n_def)
    finally have A: "2 powi expo x \<le> \<bar>x\<bar>" .
    have "n + 1 \<le> 2 ^ nat (bitlen n)" using hi by simp
    then have "real_of_int (n + 1) \<le> 2 ^ nat (bitlen n)"
      by (metis of_int_le_iff of_int_numeral of_int_power)
    moreover have "\<bar>x\<bar> < real_of_int (n + 1)" by (simp add: n_def)
    moreover have "(2::real) powi (expo x + 1) = 2 ^ nat (bitlen n)"
      using b1 by (simp add: e power_int_def)
    ultimately have "\<bar>x\<bar> < 2 powi (expo x + 1)" by simp
    with A show ?thesis by simp
  next
    case False
    define y where "y = 1 / \<bar>x\<bar>"
    have x0: "0 < \<bar>x\<bar>" using assms by simp
    have y1: "1 < y" using False x0 by (simp add: y_def)
    define m where "m = \<lceil>y\<rceil> - 1"
    have m: "0 < m" using y1 by (simp add: m_def)
    define k where "k = bitlen m"
    have e: "expo x = - k" using False by (simp add: expo_def m_def y_def k_def)
    have k1: "1 \<le> k" using m by (simp add: k_def bitlen_alt_def)
    from bitlen_bounds[OF m] have lo: "2 ^ nat (k - 1) \<le> m" and hi: "m < 2 ^ nat k"
      by (auto simp: k_def)
    have my: "of_int m < y" "y \<le> of_int m + 1"
      unfolding m_def by linarith+
    have "(2::real) ^ nat (k - 1) \<le> of_int m" using lo
      by (metis of_int_le_iff of_int_numeral of_int_power)
    then have ylo: "2 ^ nat (k - 1) < y" using my by linarith
    have "m + 1 \<le> 2 ^ nat k" using hi by simp
    then have "real_of_int (m + 1) \<le> 2 ^ nat k"
      by (metis of_int_le_iff of_int_numeral of_int_power)
    then have yhi: "y \<le> 2 ^ nat k" using my by simp
    have xe: "\<bar>x\<bar> = 1 / y" using x0 by (simp add: y_def)
    have p1: "(2::real) powi expo x = 1 / 2 ^ nat k"
      using k1 by (simp add: e power_int_def field_simps)
    have p2: "(2::real) powi (expo x + 1) = 1 / 2 ^ nat (k - 1)"
      using k1 by (simp add: e power_int_def field_simps nat_diff_distrib)
    have y0: "0 < y" using y1 by simp
    have "1 / 2 ^ nat k \<le> 1 / y" using yhi y0 by (simp add: frac_le)
    moreover have "1 / y < 1 / 2 ^ nat (k - 1)" using ylo by (simp add: frac_less2)
    ultimately show ?thesis using xe p1 p2 by simp
  qed
  then show "2 powi expo x \<le> \<bar>x\<bar>" and "\<bar>x\<bar> < 2 powi (expo x + 1)" by auto
qed

lemma rne_of_int [simp]: "rne (of_int n) = n"
  by (simp add: rne_def)

lemma rne_bounds: "of_int (rne y) \<le> y + 1 / 2" "y - 1 / 2 \<le> of_int (rne y)"
  unfolding rne_def Let_def by (auto; linarith)+

lemma rne_error: "\<bar>of_int (rne y) - y\<bar> \<le> 1 / 2"
  using rne_bounds[of y] by linarith

lemma rne_le_int: "y \<le> of_int n \<Longrightarrow> rne y \<le> n"
  unfolding rne_def Let_def
  by (auto simp: not_less; linarith)

lemma rne_ge_int: "of_int n \<le> y \<Longrightarrow> n \<le> rne y"
  unfolding rne_def Let_def
  by (auto simp: not_less; linarith)

lemma rne_mono: "x \<le> y \<Longrightarrow> rne x \<le> rne y"
proof -
  assume xy: "x \<le> y"
  show ?thesis
  proof (cases "\<lfloor>x\<rfloor> = \<lfloor>y\<rfloor>")
    case True
    then show ?thesis using xy unfolding rne_def Let_def by (auto simp: not_less)
  next
    case False
    then have "\<lfloor>x\<rfloor> + 1 \<le> \<lfloor>y\<rfloor>" using xy floor_mono[OF xy] by linarith
    then have "of_int (\<lfloor>x\<rfloor> + 1) \<le> y" by linarith
    then have "\<lfloor>x\<rfloor> + 1 \<le> rne y" by (rule rne_ge_int)
    moreover have "rne x \<le> \<lfloor>x\<rfloor> + 1" by (rule rne_le_int) linarith
    ultimately show ?thesis by linarith
  qed
qed

lemma rne_nonneg: "0 \<le> y \<Longrightarrow> 0 \<le> rne y"
  using rne_ge_int[of 0 y] by simp

lemma two_powi_pos [simp]: "0 < (2::real) powi k"
  by (simp add: power_int_def)

lemma fl_zero [simp]: "fl 0 = 0"
  by (simp add: fl_def)

lemma fl_nonneg: "0 \<le> x \<Longrightarrow> 0 \<le> fl x"
  unfolding fl_def by (auto intro!: mult_nonneg_nonneg rne_nonneg simp: less_imp_le)

lemma expo_mono:
  assumes "x \<noteq> 0" "\<bar>x\<bar> \<le> \<bar>y\<bar>"
  shows "expo x \<le> expo y"
proof (rule ccontr)
  assume "\<not> expo x \<le> expo y"
  then have "expo y + 1 \<le> expo x" by simp
  then have "(2::real) powi (expo y + 1) \<le> 2 powi expo x"
    by (intro power_int_increasing) auto
  moreover have "y \<noteq> 0" using assms by auto
  ultimately show False
    using expo_bounds(1)[OF assms(1)] expo_bounds(2)[of y] assms(2) by linarith
qed

lemma fl_ge_pow:
  assumes "0 < x" "quantum x \<le> expo x"
  shows "2 powi expo x \<le> fl x"
proof -
  let ?q = "quantum x"
  have q: "?q \<le> expo x" by (rule assms(2))
  define d where "d = nat (expo x - ?q)"
  have d: "expo x = ?q + int d" using q by (simp add: d_def)
  have "(2::real) powi expo x = 2 ^ d * 2 powi ?q"
    by (subst d) (simp add: power_int_add)
  have "(2::real) ^ d * 2 powi ?q \<le> x"
    using expo_bounds(1)[of x] assms \<open>2 powi expo x = 2 ^ d * 2 powi ?q\<close> by simp
  then have "of_int (2 ^ d) \<le> x / 2 powi ?q"
    by (simp add: field_simps)
  then have "2 ^ d \<le> rne (x / 2 powi ?q)" by (rule rne_ge_int)
  then have "(2::real) ^ d \<le> of_int (rne (x / 2 powi ?q))"
    by (metis of_int_le_iff of_int_numeral of_int_power)
  then have "(2::real) ^ d * 2 powi ?q \<le> of_int (rne (x / 2 powi ?q)) * 2 powi ?q"
    by (simp)
  then show ?thesis using assms \<open>2 powi expo x = 2 ^ d * 2 powi ?q\<close>
    by (simp add: fl_def)
qed

lemma fl_le_pow:
  assumes "0 < x" "x \<le> 2 powi e" "quantum x \<le> e"
  shows "fl x \<le> 2 powi e"
proof -
  let ?q = "quantum x"
  define d where "d = nat (e - ?q)"
  have d: "e = ?q + int d" using assms(3) by (simp add: d_def)
  have pe: "(2::real) powi e = 2 ^ d * 2 powi ?q"
    by (subst d) (simp add: power_int_add)
  have "x / 2 powi ?q \<le> of_int (2 ^ d)"
    using assms(2) pe by (simp add: field_simps)
  then have "rne (x / 2 powi ?q) \<le> 2 ^ d" by (rule rne_le_int)
  then have "of_int (rne (x / 2 powi ?q)) \<le> (2::real) ^ d"
    by (metis of_int_le_iff of_int_numeral of_int_power)
  then have "real_of_int (rne (x / 2 powi ?q)) * 2 powi ?q \<le> 2 ^ d * 2 powi ?q"
    by simp
  then show ?thesis using assms(1) pe by (simp add: fl_def)
qed

lemma fl_mono_pos:
  assumes "0 < x" "x \<le> y"
  shows "fl x \<le> fl y"
proof -
  have y: "0 < y" using assms by simp
  have ee: "expo x \<le> expo y" using expo_mono[of x y] assms by simp
  then have qq: "quantum x \<le> quantum y" by (simp add: quantum_def)
  show ?thesis
  proof (cases "quantum x = quantum y")
    case True
    have "x / 2 powi quantum y \<le> y / 2 powi quantum y"
      using assms(2) by (simp add: divide_right_mono)
    then have "rne (x / 2 powi quantum y) \<le> rne (y / 2 powi quantum y)" by (rule rne_mono)
    then have "real_of_int (rne (x / 2 powi quantum y)) * 2 powi quantum y
        \<le> of_int (rne (y / 2 powi quantum y)) * 2 powi quantum y"
      by simp
    then show ?thesis using assms y True by (simp add: fl_def)
  next
    case False
    then have lt: "quantum x < quantum y" using qq by simp
    then have ex: "expo x < expo y" by (auto simp: quantum_def max_def split: if_splits)
    have "x < 2 powi (expo x + 1)" using expo_bounds(2)[of x] assms by simp
    also have "\<dots> \<le> 2 powi expo y" using ex by (intro power_int_increasing) auto
    finally have "x \<le> 2 powi expo y" by simp
    moreover have qy: "quantum y = expo y - 52" "quantum x < expo y - 52"
      using lt by (auto simp: quantum_def max_def split: if_splits)
    moreover have "quantum x \<le> expo y" using qy by simp
    ultimately have "fl x \<le> 2 powi expo y" using assms(1) by (intro fl_le_pow) auto
    also have "\<dots> \<le> fl y" using qy by (intro fl_ge_pow[OF y]) simp

    finally show ?thesis .
  qed
qed

lemma fl_mono_nonneg: "0 \<le> x \<Longrightarrow> x \<le> y \<Longrightarrow> fl x \<le> fl y"
  by (cases "x = 0") (auto intro: fl_mono_pos fl_nonneg)

lemma fl_one [simp]: "fl 1 = 1"
  by code_simp
section \<open>The interest formula library\<close>


lemma fl_ge_one: "1 \<le> x \<Longrightarrow> 1 \<le> fl x"
  using fl_mono_nonneg[of 1 x] by simp



text \<open>
  C9. On a balance of -40 cents at 15% APR the exact monthly interest is half a cent.
  \<open>simple\<close> computes \<open>(40 * 0.15) / 12 = 0.5\<close> and rounds it to 1; \<open>compound_monthly\<close>
  computes \<open>40 * (0.15 / 12)\<close>, which is the double just below 0.5, and rounds it to 0.
\<close>

theorem calculateInterest_scheme_mismatch:
  "calculateInterest pw (- 40) 15 ''simple'' freq = 1
   \<and> calculateInterest pw (- 40) 15 ''compound_monthly'' freq = 0"
  unfolding calculateInterest_def by code_simp

text \<open>
  C8. \<^verbatim>\<open>calculateInterest(-250000, 18.5, 'simple', _)\<close> is exactly 3854 cents and
  \<^verbatim>\<open>calculateInterest(-250000, 18.0, 'compound_monthly', _)\<close> is exactly 3750 cents, whatever
  the compounding frequency (and whatever \<^verbatim>\<open>Math.pow\<close> computes: neither branch calls it).
\<close>

theorem calculateInterest_examples:
  "calculateInterest pw (- 250000) (37 / 2) ''simple'' freq = 3854
   \<and> calculateInterest pw (- 250000) 18 ''compound_monthly'' freq = 3750"
  unfolding calculateInterest_def by code_simp

section \<open>The round trip of the two interest functions\<close>

lemma ulp_pos: "0 < ulp" by (simp add: ulp_def)

lemma expo_ge:
  assumes "2 powi k \<le> \<bar>x\<bar>"
  shows "k \<le> expo x"
proof (rule ccontr)
  assume "\<not> k \<le> expo x"
  then have "expo x + 1 \<le> k" by simp
  then have "(2::real) powi (expo x + 1) \<le> 2 powi k"
    by (intro power_int_increasing) auto
  moreover have "x \<noteq> 0"
  proof
    assume "x = 0"
    then have "(2::real) powi k \<le> 0" using assms by simp
    then show False using two_powi_pos[of k] by linarith
  qed
  ultimately show False using expo_bounds(2)[of x] assms by linarith
qed

lemma fl_abs_error: "\<bar>fl x - x\<bar> \<le> 2 powi quantum x / 2"
proof (cases "x = 0")
  case True
  then show ?thesis by simp
next
  case False
  let ?q = "quantum x"
  have "fl x - x = (of_int (rne (x / 2 powi ?q)) - x / 2 powi ?q) * 2 powi ?q"
    using False by (simp add: fl_def field_simps)
  then have "\<bar>fl x - x\<bar> = \<bar>of_int (rne (x / 2 powi ?q)) - x / 2 powi ?q\<bar> * 2 powi ?q"
    by (simp add: abs_mult)
  also have "\<dots> \<le> (1 / 2) * 2 powi ?q"
    by (intro mult_right_mono rne_error) simp
  finally show ?thesis by simp
qed

lemma fl_rel_error:
  assumes "2 powi (- 1022) \<le> \<bar>x\<bar>"
  shows "\<bar>fl x - x\<bar> \<le> ulp * \<bar>x\<bar>"
proof -
  have x: "x \<noteq> 0"
  proof
    assume "x = 0"
    then have "(2::real) powi (- 1022) \<le> 0" using assms by simp
    then show False using two_powi_pos[of "- 1022"] by linarith
  qed
  have e: "- 1022 \<le> expo x" by (rule expo_ge[OF assms])
  then have q: "quantum x = expo x - 52" by (simp add: quantum_def)
  have "(2::real) powi (expo x - 52) = 2 powi expo x * 2 powi (- 52)"
    using power_int_add[of "2::real" "expo x" "- 52"] by simp
  also have "(2::real) powi (- 52) = 1 / 2 ^ 52"
    by (simp add: power_int_def field_simps)
  finally have "2 powi quantum x / 2 = 2 powi expo x * ulp"
    by (simp add: q ulp_def)
  also have "\<dots> \<le> \<bar>x\<bar> * ulp"
    using expo_bounds(1)[OF x] ulp_pos by (intro mult_right_mono) auto
  finally show ?thesis using fl_abs_error[of x] by (simp add: mult.commute)
qed

lemma small_normal:
  fixes x :: real
  assumes a: "1 / 2 ^ 64 \<le> \<bar>x\<bar>"
  shows "2 powi (- 1022) \<le> \<bar>x\<bar>"
proof -
  have "(2::real) powi (- 1022) \<le> 2 powi (- 64)"
    by (intro power_int_increasing) auto
  also have "\<dots> = 1 / 2 ^ 64" by (simp add: power_int_def field_simps)
  finally show ?thesis using a by linarith
qed

lemma rel_close_refl [simp]: "rel_close 0 x x"
  by (simp add: rel_close_def)

lemma rel_close_mono: "rel_close a x y \<Longrightarrow> a \<le> b \<Longrightarrow> rel_close b x y"
  unfolding rel_close_def by (meson abs_ge_zero mult_right_mono order_trans)

lemma rel_close_abs_le:
  assumes "rel_close e x y" "0 \<le> e"
  shows "\<bar>x\<bar> \<le> (1 + e) * \<bar>y\<bar>" "(1 - e) * \<bar>y\<bar> \<le> \<bar>x\<bar>"
  using assms unfolding rel_close_def by (auto simp: algebra_simps abs_if split: if_splits)

lemma rel_close_fl:
  assumes "rel_close e x y" "0 \<le> e" "e \<le> 1 / 2" "1 / 2 ^ 63 \<le> \<bar>y\<bar>"
  shows "rel_close (e + 2 * ulp) (fl x) y"
proof -
  have xl: "(1 - e) * \<bar>y\<bar> \<le> \<bar>x\<bar>" and xu: "\<bar>x\<bar> \<le> (1 + e) * \<bar>y\<bar>"
    using rel_close_abs_le[OF assms(1,2)] by auto
  have "1 / 2 * \<bar>y\<bar> \<le> (1 - e) * \<bar>y\<bar>" using assms(3) by (intro mult_right_mono) auto
  then have "1 / 2 ^ 64 \<le> \<bar>x\<bar>" using xl assms(4) by simp
  then have "\<bar>fl x - x\<bar> \<le> ulp * \<bar>x\<bar>" by (intro fl_rel_error small_normal)
  also have "\<dots> \<le> ulp * ((1 + e) * \<bar>y\<bar>)" using xu ulp_pos by (intro mult_left_mono) auto
  also have "\<dots> \<le> ulp * (2 * \<bar>y\<bar>)"
    using assms(3) ulp_pos by (intro mult_left_mono mult_right_mono) auto
  finally have "\<bar>fl x - x\<bar> \<le> 2 * ulp * \<bar>y\<bar>" by simp
  moreover have "\<bar>x - y\<bar> \<le> e * \<bar>y\<bar>" using assms(1) by (simp add: rel_close_def)
  ultimately have "\<bar>fl x - y\<bar> \<le> e * \<bar>y\<bar> + 2 * ulp * \<bar>y\<bar>" by linarith
  then show ?thesis by (simp add: rel_close_def algebra_simps)
qed

lemma rel_close_times: "rel_close e x y \<Longrightarrow> rel_close e (x * c) (y * c)"
  unfolding rel_close_def
  by (metis abs_mult left_diff_distrib mult.assoc mult_right_mono abs_ge_zero)

lemma rel_close_times_left: "rel_close e x y \<Longrightarrow> rel_close e (c * x) (c * y)"
  using rel_close_times[of e x y c] by (simp add: mult.commute)

lemma rel_close_divide: "rel_close e x y \<Longrightarrow> rel_close e (x / c) (y / c)"
  using rel_close_times[of e x y "1 / c"] by simp

lemma rel_close_trans:
  assumes "rel_close a x y" "rel_close b y z" "0 \<le> a" "0 \<le> b" "b \<le> 1"
  shows "rel_close (2 * a + b) x z"
proof -
  have "\<bar>y\<bar> \<le> (1 + b) * \<bar>z\<bar>" using rel_close_abs_le(1)[OF assms(2,4)] .
  also have "\<dots> \<le> 2 * \<bar>z\<bar>" using assms(5) by (intro mult_right_mono) auto
  finally have "a * \<bar>y\<bar> \<le> a * (2 * \<bar>z\<bar>)" using assms(3) by (intro mult_left_mono) auto
  moreover have "\<bar>x - y\<bar> \<le> a * \<bar>y\<bar>" "\<bar>y - z\<bar> \<le> b * \<bar>z\<bar>"
    using assms(1,2) by (simp_all add: rel_close_def)
  ultimately have "\<bar>x - z\<bar> \<le> a * (2 * \<bar>z\<bar>) + b * \<bar>z\<bar>" by linarith
  then show ?thesis by (simp add: rel_close_def algebra_simps)
qed

lemma rel_close_mult:
  assumes "rel_close a x x'" "rel_close b y y'" "0 \<le> a" "0 \<le> b" "b \<le> 1"
  shows "rel_close (2 * a + b) (x * y) (x' * y')"
proof -
  have "rel_close a (x * y) (x' * y)" using assms(1) by (rule rel_close_times)
  moreover have "rel_close b (x' * y) (x' * y')" using assms(2) by (rule rel_close_times_left)
  ultimately show ?thesis using assms(3-5) by (rule rel_close_trans)
qed

lemma rel_close_pos:
  assumes "rel_close e x y" "0 < y" "e < 1"
  shows "0 < x"
proof -
  have "\<bar>x - y\<bar> \<le> e * y" using assms(1,2) by (simp add: rel_close_def)
  moreover have "e * y < y" using assms(2,3) by simp
  ultimately show ?thesis by linarith
qed

lemma rel_close_bounds:
  assumes "rel_close e x y" "0 \<le> y"
  shows "y - e * y \<le> x" "x \<le> y + e * y"
  using assms unfolding rel_close_def by (auto simp: abs_le_iff)

lemma ulp_small: "ulp \<le> 1 / 9000000000000000" "8 * ulp \<le> 1 / 2"
  by (simp_all add: ulp_def)

lemma Math_round_error: "\<bar>of_int (Math_round x) - x\<bar> \<le> 1 / 2"
  unfolding Math_round_def by linarith

lemma fl_int_div_close:
  fixes n :: int
  shows "\<bar>fl (of_int n / 100) - of_int n / 100\<bar> \<le> ulp * \<bar>of_int n / 100\<bar>"
proof (cases "n = 0")
  case True
  then show ?thesis by simp
next
  case False
  then have "1 \<le> \<bar>real_of_int n\<bar>" by linarith
  then have "1 / 100 \<le> \<bar>real_of_int n / 100\<bar>" by simp
  then have "1 / 2 ^ 64 \<le> \<bar>real_of_int n / 100\<bar>" by simp
  then show ?thesis by (intro fl_rel_error small_normal)
qed

text \<open>\<open>round2\<close> on a rate of 0.0001% to 300%\<close>

lemma round2_close:
  assumes "1 / 2 ^ 20 \<le> x" "x \<le> 3"
  shows "\<bar>round2 x - 100 * x\<bar> \<le> 1 / 200 + 1 / 1000000000000"
proof -
  define c where "c = fmul x 100"
  define d where "d = fmul c 100"
  define n where "n = Math_round d"
  have x0: "0 < x" using assms(1) by (simp add: less_le_trans[of 0 "1 / 2 ^ 20"])
  have "rel_close 0 (x * 100) (x * 100)" by simp
  then have c: "rel_close (2 * ulp) c (x * 100)"
    unfolding c_def fmul_def using assms(1) ulp_small
    using rel_close_fl[of 0 "x * 100" "x * 100"] by simp
  then have "rel_close (2 * ulp) (c * 100) (x * 100 * 100)" by (rule rel_close_times)
  then have d: "rel_close (4 * ulp) d (x * 100 * 100)"
    unfolding d_def fmul_def using assms(1) ulp_small ulp_pos
    using rel_close_fl[of "2 * ulp" "c * 100" "x * 100 * 100"] by simp
  have d1: "\<bar>d - 10000 * x\<bar> \<le> 4 * ulp * (10000 * x)"
    using d x0 by (simp add: rel_close_def)
  have "4 * ulp * (10000 * x) \<le> 4 * ulp * (10000 * 3)"
    using assms(2) ulp_pos by (intro mult_left_mono) auto
  then have d2: "\<bar>d - 10000 * x\<bar> \<le> 120000 * ulp" using d1 by linarith
  have n1: "\<bar>of_int n - d\<bar> \<le> 1 / 2" unfolding n_def by (rule Math_round_error)
  have us: "120000 * ulp \<le> 1 / 2" by (simp add: ulp_def)
  have nb: "\<bar>real_of_int n\<bar> \<le> 30001"
    using n1 d2 assms(2) x0 us by linarith
  have r: "\<bar>fl (of_int n / 100) - of_int n / 100\<bar> \<le> ulp * \<bar>of_int n / 100\<bar>"
    by (rule fl_int_div_close)
  have "ulp * \<bar>real_of_int n / 100\<bar> \<le> ulp * (30001 / 100)"
    using nb ulp_pos by (intro mult_left_mono) auto
  then have r2: "\<bar>fl (of_int n / 100) - of_int n / 100\<bar> \<le> 301 * ulp"
    using r ulp_pos by linarith
  have R: "round2 x = fl (of_int n / 100)"
    by (simp add: round2_def n_def d_def c_def fdiv_def)
  have "\<bar>round2 x - 100 * x\<bar> \<le> 301 * ulp + 1 / 200 + 1200 * ulp"
    unfolding R using r2 n1 d2 by linarith
  then show ?thesis using ulp_small(1) by linarith
qed

text \<open>forward: \<open>simple\<close> and \<open>compound_monthly\<close> round a value within six ulps of \<open>P * r / 1200\<close>\<close>

lemma rel_close_fl_step:
  assumes "rel_close e x y" "0 \<le> e" "e \<le> 1 / 2" "1 / 2 ^ 63 \<le> \<bar>y\<bar>" "e + 2 * ulp \<le> e'"
  shows "rel_close e' (fl x) y"
  using rel_close_mono[OF rel_close_fl[OF assms(1-4)] assms(5)] .

lemma forward_simple_close:
  assumes "30000 \<le> P" "1 / 10 \<le> r"
  shows "rel_close (6 * ulp) (fdiv (fmul P (fdiv r 100)) 12) (P * r / 1200)"
proof -
  have r0: "1 / 2 ^ 63 \<le> \<bar>r / 100\<bar>" using assms(2) by simp
  have s1: "rel_close (2 * ulp) (fl (r / 100)) (r / 100)"
    by (rule rel_close_fl_step[OF rel_close_refl _ _ r0]) simp_all
  have s2: "rel_close (2 * ulp) (P * fl (r / 100)) (P * (r / 100))"
    by (rule rel_close_times_left[OF s1])
  have p1: "1 \<le> P * (r / 100)"
    using mult_mono[of 30000 P "1 / 1000" "r / 100"] assms by simp
  then have p2: "1 / 2 ^ 63 \<le> \<bar>P * (r / 100)\<bar>" by simp
  have s3: "rel_close (4 * ulp) (fl (P * fl (r / 100))) (P * (r / 100))"
    by (rule rel_close_fl_step[OF s2 _ _ p2]) (use ulp_small ulp_pos in simp_all)
  have s4: "rel_close (4 * ulp) (fl (P * fl (r / 100)) / 12) (P * (r / 100) / 12)"
    by (rule rel_close_divide[OF s3])
  have p3: "1 / 2 ^ 63 \<le> \<bar>P * (r / 100) / 12\<bar>" using p1 by simp
  have s5: "rel_close (6 * ulp) (fl (fl (P * fl (r / 100)) / 12)) (P * (r / 100) / 12)"
    by (rule rel_close_fl_step[OF s4 _ _ p3]) (use ulp_small ulp_pos in simp_all)
  have "P * (r / 100) / 12 = P * r / 1200" by simp
  then show ?thesis using s5 by (simp only: fdiv_def fmul_def)
qed

lemma forward_monthly_close:
  assumes "30000 \<le> P" "1 / 10 \<le> r"
  shows "rel_close (6 * ulp) (fmul P (fdiv (fdiv r 100) 12)) (P * r / 1200)"
proof -
  have r0: "1 / 2 ^ 63 \<le> \<bar>r / 100\<bar>" using assms(2) by simp
  have s1: "rel_close (2 * ulp) (fl (r / 100)) (r / 100)"
    by (rule rel_close_fl_step[OF rel_close_refl _ _ r0]) simp_all
  have s2: "rel_close (2 * ulp) (fl (r / 100) / 12) (r / 100 / 12)"
    by (rule rel_close_divide[OF s1])
  have p2: "1 / 2 ^ 63 \<le> \<bar>r / 100 / 12\<bar>" using assms(2) by simp
  have s3: "rel_close (4 * ulp) (fl (fl (r / 100) / 12)) (r / 100 / 12)"
    by (rule rel_close_fl_step[OF s2 _ _ p2]) (use ulp_small ulp_pos in simp_all)
  have s4: "rel_close (4 * ulp) (P * fl (fl (r / 100) / 12)) (P * (r / 100 / 12))"
    by (rule rel_close_times_left[OF s3])
  have "1 \<le> P * (r / 1200)"
    using mult_mono[of 30000 P "1 / 12000" "r / 1200"] assms by simp
  then have p3: "1 / 2 ^ 63 \<le> \<bar>P * (r / 100 / 12)\<bar>" by simp
  have s5: "rel_close (6 * ulp) (fl (P * fl (fl (r / 100) / 12))) (P * (r / 100 / 12))"
    by (rule rel_close_fl_step[OF s4 _ _ p3]) (use ulp_small ulp_pos in simp_all)
  have "P * (r / 100 / 12) = P * r / 1200" by simp
  then show ?thesis using s5 by (simp only: fdiv_def fmul_def)
qed

text \<open>the rounded interest\<close>

lemma rounded_interest:
  assumes "rel_close e b X" "0 \<le> e" "e \<le> 1 / 1000000000000" "2 \<le> X"
  shows "\<bar>of_int (Math_round b) - X\<bar> \<le> 1 / 2 + X / 1000000000000" "1 \<le> Math_round b"
proof -
  have "\<bar>b - X\<bar> \<le> e * X" using assms(1,4) by (simp add: rel_close_def)
  moreover have "e * X \<le> 1 / 1000000000000 * X" using assms(3,4) by (intro mult_right_mono) auto
  ultimately have bx: "\<bar>b - X\<bar> \<le> X / 1000000000000" by simp
  then show "\<bar>of_int (Math_round b) - X\<bar> \<le> 1 / 2 + X / 1000000000000"
    using Math_round_error[of b] by linarith
  have "1 \<le> b" using bx assms(4) by linarith
  then show "1 \<le> Math_round b" unfolding Math_round_def by linarith
qed

lemma abs_sum3:
  fixes a b c :: real
  shows "\<bar>a + 100 * b + 100 * c\<bar> \<le> \<bar>a\<bar> + 100 * \<bar>b\<bar> + 100 * \<bar>c\<bar>"
proof -
  have "\<bar>a + 100 * b + 100 * c\<bar> \<le> \<bar>a + 100 * b\<bar> + \<bar>100 * c\<bar>" by (rule abs_triangle_ineq)
  also have "\<bar>a + 100 * b\<bar> \<le> \<bar>a\<bar> + \<bar>100 * b\<bar>" by (rule abs_triangle_ineq)
  finally show ?thesis by (simp add: abs_mult)
qed

text \<open>backward: the linear inverse\<close>

lemma inverse_linear_close:
  fixes I :: int
  assumes P: "30000 \<le> P" "P \<le> 10 ^ 15" and r: "1 / 10 \<le> r" "r \<le> 100"
    and I: "1 \<le> I" "\<bar>of_int I - P * r / 1200\<bar> \<le> 1 / 2 + (P * r / 1200) / 1000000000000"
  shows "\<bar>round2 (fmul (fdiv (of_int I) P) 12) - r\<bar> \<le> 26 / 1000"
proof -
  define X where "X = P * r / 1200"
  define rho where "rho = 12 * of_int I / P"
  define x where "x = fmul (fdiv (of_int I) P) 12"
  have P0: "0 < P" using P(1) by simp
  have XP: "12 * X / P = r / 100" using P0 by (simp add: X_def)
  have "\<bar>rho - r / 100\<bar> = 12 / P * \<bar>of_int I - X\<bar>"
  proof -
    have "rho - r / 100 = 12 / P * (of_int I - X)"
      using P0 XP by (simp add: rho_def field_simps)
    then have "\<bar>rho - r / 100\<bar> = \<bar>12 / P\<bar> * \<bar>of_int I - X\<bar>"
      by (simp only: abs_mult)
    moreover have "\<bar>12 / P\<bar> = 12 / P" using P0 by simp
    ultimately show ?thesis by simp
  qed
  also have "\<dots> \<le> 12 / P * (1 / 2 + X / 1000000000000)"
    using I(2) P0 by (intro mult_left_mono) (auto simp: X_def)
  also have "\<dots> = 6 / P + (12 * X / P) / 1000000000000" using P0 by (simp add: field_simps)
  also have "\<dots> = 6 / P + (r / 100) / 1000000000000" by (simp only: XP)
  also have "\<dots> \<le> 6 / 30000 + 1 / 1000000000000"
    using P(1) r(2) by (intro add_mono divide_left_mono divide_right_mono) auto
  finally have rho: "\<bar>rho - r / 100\<bar> \<le> 1 / 5000 + 1 / 1000000000000" by simp
  have rho_lo: "1 / 2000 \<le> rho" and rho_hi: "rho \<le> 2"
    using rho r by linarith+
  have ip: "1 / 2 ^ 63 \<le> \<bar>of_int I / P\<bar>"
  proof -
    have "1 / 10 ^ 15 \<le> 1 / P" using P P0 by (intro divide_left_mono) auto
    also have "\<dots> \<le> of_int I / P" using I(1) P0 by (intro divide_right_mono) auto
    finally have "1 / 10 ^ 15 \<le> of_int I / P" .
    moreover have "(1::real) / 2 ^ 63 \<le> 1 / 10 ^ 15" by simp
    ultimately show ?thesis using P0 I(1) by simp
  qed
  have s1: "rel_close (2 * ulp) (fl (of_int I / P)) (of_int I / P)"
    by (rule rel_close_fl_step[OF rel_close_refl _ _ ip]) simp_all
  have s2: "rel_close (2 * ulp) (fl (of_int I / P) * 12) (of_int I / P * 12)"
    by (rule rel_close_times[OF s1])
  have ip2: "1 / 2 ^ 63 \<le> \<bar>of_int I / P * 12\<bar>" using ip by (simp add: abs_mult)
  have s3: "rel_close (4 * ulp) (fl (fl (of_int I / P) * 12)) (of_int I / P * 12)"
    by (rule rel_close_fl_step[OF s2 _ _ ip2]) (use ulp_small ulp_pos in simp_all)
  have "of_int I / P * 12 = rho" by (simp add: rho_def)
  then have xr: "rel_close (4 * ulp) x rho"
    using s3 by (simp only: x_def fmul_def fdiv_def)
  have "\<bar>x - rho\<bar> \<le> 4 * ulp * rho" using xr rho_lo by (simp add: rel_close_def)
  also have "\<dots> \<le> 4 * ulp * 2" using rho_hi ulp_pos by (intro mult_left_mono) auto
  finally have xrho: "\<bar>x - rho\<bar> \<le> 8 * ulp" by simp
  have u8: "8 * ulp \<le> 1 / 1000000000000" using ulp_small(1) by linarith
  have "1 / 4000 \<le> x" using xrho u8 rho_lo by linarith
  then have x_lo: "1 / 2 ^ 20 \<le> x" by simp
  have x_hi: "x \<le> 3"
    using xrho u8 rho_hi by linarith
  have "\<bar>round2 x - 100 * x\<bar> \<le> 1 / 200 + 1 / 1000000000000"
    by (rule round2_close[OF x_lo x_hi])
  moreover have "round2 x - r = (round2 x - 100 * x) + 100 * (x - rho) + 100 * (rho - r / 100)"
    by simp
  then have "\<bar>round2 x - r\<bar> \<le> \<bar>round2 x - 100 * x\<bar> + 100 * \<bar>x - rho\<bar> + 100 * \<bar>rho - r / 100\<bar>"
    using abs_sum3[of "round2 x - 100 * x" "x - rho" "rho - r / 100"] by simp
  ultimately have "\<bar>round2 x - r\<bar> \<le> 26 / 1000"
    using xrho u8 rho by linarith
  then show ?thesis unfolding x_def .
qed

lemma expo_le:
  assumes "x \<noteq> 0" "\<bar>x\<bar> < 2 powi k"
  shows "expo x < k"
proof (rule ccontr)
  assume "\<not> expo x < k"
  then have "k \<le> expo x" by simp
  then have "(2::real) powi k \<le> 2 powi expo x"
    by (intro power_int_increasing) auto
  then show False using expo_bounds(1)[OF assms(1)] assms(2) by linarith
qed

lemma fl_abs_small:
  assumes "\<bar>x\<bar> \<le> 2"
  shows "\<bar>fl x - x\<bar> \<le> 4 * ulp"
proof (cases "x = 0")
  case True
  then show ?thesis using ulp_pos by simp
next
  case False
  have "\<bar>x\<bar> < 2 powi 2" using assms by simp
  then have "expo x < 2" by (rule expo_le[OF False])
  then have q: "quantum x \<le> - 51" by (simp add: quantum_def)
  have "(2::real) powi quantum x \<le> 2 powi (- 51)"
    using q by (intro power_int_increasing) auto
  also have "\<dots> = 4 * ulp" by (simp add: power_int_def ulp_def field_simps)
  finally have "2 powi quantum x / 2 \<le> 4 * ulp" using ulp_pos by simp
  then show ?thesis using fl_abs_error[of x] by linarith
qed

lemma rel_close_add_left:
  assumes "rel_close e x y" "0 \<le> y" "0 \<le> c" "0 \<le> e"
  shows "rel_close e (c + x) (c + y)"
proof -
  have "\<bar>x - y\<bar> \<le> e * y" using assms(1,2) by (simp add: rel_close_def)
  also have "\<dots> \<le> e * (c + y)" using assms(3,4) by (intro mult_left_mono) auto
  finally show ?thesis using assms(2,3) by (simp add: rel_close_def)
qed

lemma rel_close_power:
  assumes "rel_close e x y" "0 \<le> e" "2 * real n * e \<le> 1"
  shows "rel_close (2 * real n * e) (x ^ n) (y ^ n)"
  using assms(3)
proof (induction n)
  case 0
  then show ?case by simp
next
  case (Suc n)
  have le: "2 * real n * e \<le> 1"
  proof -
    have "2 * real n * e \<le> 2 * real (Suc n) * e"
      using assms(2) by (intro mult_right_mono) auto
    then show ?thesis using Suc.prems by linarith
  qed
  have ih: "rel_close (2 * real n * e) (x ^ n) (y ^ n)" using Suc.IH le by simp
  have "rel_close (2 * e + 2 * real n * e) (x * x ^ n) (y * y ^ n)"
    using assms(2) le by (intro rel_close_mult[OF assms(1) ih]) auto
  moreover have "2 * e + 2 * real n * e = 2 * real (Suc n) * e" by (simp add: algebra_simps)
  ultimately show ?case by simp
qed

lemma power_diff_lower:
  fixes s t :: real
  assumes "1 \<le> t" "t \<le> s"
  shows "real n * (s - t) \<le> s ^ n - t ^ n"
proof (induction n)
  case 0
  then show ?case by simp
next
  case (Suc n)
  have s1: "1 \<le> s" using assms by simp
  have "s ^ Suc n - t ^ Suc n = s * (s ^ n - t ^ n) + t ^ n * (s - t)"
    by (simp add: algebra_simps)
  moreover have "real n * (s - t) \<le> s * (s ^ n - t ^ n)"
  proof -
    have "0 \<le> s ^ n - t ^ n" using assms by (simp add: power_mono)
    then have "1 * (s ^ n - t ^ n) \<le> s * (s ^ n - t ^ n)"
      using s1 by (intro mult_right_mono) auto
    then show ?thesis using Suc.IH by simp
  qed
  moreover have "1 * (s - t) \<le> t ^ n * (s - t)"
    using assms by (intro mult_right_mono) (auto simp: one_le_power)
  ultimately show ?case by (simp add: algebra_simps)
qed

lemma power_diff_upper:
  fixes s t M :: real
  assumes "0 \<le> t" "t \<le> s" "s \<le> M"
  shows "s ^ Suc n - t ^ Suc n \<le> real (Suc n) * M ^ n * (s - t)"
proof (induction n)
  case 0
  then show ?case by simp
next
  case (Suc n)
  have s0: "0 \<le> s" and M0: "0 \<le> M" using assms by simp_all
  have "s ^ Suc (Suc n) - t ^ Suc (Suc n) = s * (s ^ Suc n - t ^ Suc n) + t ^ Suc n * (s - t)"
    by (simp add: algebra_simps)
  moreover have "s * (s ^ Suc n - t ^ Suc n) \<le> M * (real (Suc n) * M ^ n * (s - t))"
  proof -
    have "0 \<le> s ^ Suc n - t ^ Suc n" using assms by (simp add: power_mono del: power_Suc)
    then show ?thesis using Suc.IH assms s0 by (intro mult_mono) auto
  qed
  moreover have "t ^ Suc n * (s - t) \<le> M ^ Suc n * (s - t)"
    using assms by (intro mult_right_mono power_mono) auto
  ultimately have "s ^ Suc (Suc n) - t ^ Suc (Suc n)
      \<le> M * (real (Suc n) * M ^ n * (s - t)) + M ^ Suc n * (s - t)" by linarith
  also have "\<dots> = real (Suc (Suc n)) * M ^ Suc n * (s - t)" by (simp add: algebra_simps)
  finally show ?case .
qed

lemma linear_interest_bounds:
  fixes P r :: real
  assumes "30000 \<le> P" "1 / 10 \<le> r"
  shows "2 \<le> P * r / 1200"
proof -
  have "30000 * (1 / 10) \<le> P * r" using assms by (intro mult_mono) auto
  then show ?thesis by simp
qed

lemma round_trip_linear:
  fixes b :: real
  assumes P: "30000 \<le> P" "P \<le> 10 ^ 15" and r: "1 / 10 \<le> r" "r \<le> 100"
    and b: "rel_close (6 * ulp) b (P * r / 1200)"
  shows "of_int (Math_round b) \<noteq> (0::real)"
    and "\<bar>round2 (fmul (fdiv \<bar>of_int (Math_round b)\<bar> \<bar>P\<bar>) 12) - r\<bar> \<le> 26 / 1000"
proof -
  have u: "6 * ulp \<le> 1 / 1000000000000" using ulp_small(1) by linarith
  have X: "2 \<le> P * r / 1200" by (rule linear_interest_bounds[OF P(1) r(1)])
  have u0: "0 \<le> 6 * ulp" using ulp_pos by simp
  note ri = rounded_interest[OF b u0 u X]
  show "of_int (Math_round b) \<noteq> (0::real)" using ri(2) by simp
  have a1: "\<bar>real_of_int (Math_round b)\<bar> = of_int (Math_round b)" using ri(2) by simp
  have a2: "\<bar>P\<bar> = P" using P(1) by simp
  show "\<bar>round2 (fmul (fdiv \<bar>of_int (Math_round b)\<bar> \<bar>P\<bar>) 12) - r\<bar> \<le> 26 / 1000"
    unfolding a1 a2 by (rule inverse_linear_close[OF P r ri(2) ri(1)])
qed

lemma round_trip_simple:
  assumes P: "30000 \<le> P" "P \<le> 10 ^ 15" and r: "1 / 10 \<le> r" "r \<le> 100"
  shows "\<exists>R. calculateAPRFromInterest pw (of_int (calculateInterest pw (- P) r ''simple'' f)) P ''simple'' = Some R
            \<and> \<bar>R - r\<bar> \<le> 26 / 1000"
proof -
  have P0: "P \<noteq> 0" "\<bar>P\<bar> = P" and r0: "r \<noteq> 0" using P r by simp_all
  have ci: "calculateInterest pw (- P) r ''simple'' f = Math_round (fdiv (fmul P (fdiv r 100)) 12)"
    using P0 r0 by (simp add: calculateInterest_def)
  note rt = round_trip_linear[OF P r forward_simple_close[OF P(1) r(1)]]
  show ?thesis
    unfolding ci using rt(1) rt(2) P0(1) by (simp add: calculateAPRFromInterest_def)
qed

lemma round_trip_monthly:
  assumes P: "30000 \<le> P" "P \<le> 10 ^ 15" and r: "1 / 10 \<le> r" "r \<le> 100"
  shows "\<exists>R. calculateAPRFromInterest pw (of_int (calculateInterest pw (- P) r ''compound_monthly'' f)) P ''compound_monthly'' = Some R
            \<and> \<bar>R - r\<bar> \<le> 26 / 1000"
proof -
  have P0: "P \<noteq> 0" "\<bar>P\<bar> = P" and r0: "r \<noteq> 0" using P r by simp_all
  have ci: "calculateInterest pw (- P) r ''compound_monthly'' f = Math_round (fmul P (fdiv (fdiv r 100) 12))"
    using P0 r0 by (simp add: calculateInterest_def)
  note rt = round_trip_linear[OF P r forward_monthly_close[OF P(1) r(1)]]
  show ?thesis
    unfolding ci using rt(1) rt(2) P0(1) by (simp add: calculateAPRFromInterest_def)
qed

text \<open>powers with a perturbed base or exponent\<close>

lemma pow_accurate_close:
  assumes "pow_accurate pw" "1 \<le> b" "b \<le> 4" "0 \<le> e" "e \<le> 30"
  shows "rel_close (1 / 1000000000000) (pw b e) (b powr e)"
proof -
  have "\<bar>pw b e - b powr e\<bar> \<le> (b powr e) / 2 ^ 40"
    using assms unfolding pow_accurate_def by blast
  also have "\<dots> \<le> (b powr e) / 1000000000000"
    by (intro divide_left_mono) auto
  finally show ?thesis by (simp add: rel_close_def)
qed

lemma powr_unit_close:
  fixes d t :: real
  assumes "- 1 < d" "0 \<le> t" "t \<le> 1"
  shows "\<bar>(1 + d) powr t - 1\<bar> \<le> \<bar>d\<bar>"
proof (cases "0 \<le> d")
  case True
  have "1 powr t \<le> (1 + d) powr t" using True assms by (intro powr_mono2) auto
  moreover have "(1 + d) powr t \<le> (1 + d) powr 1" using True assms by (intro powr_mono) auto
  ultimately show ?thesis using True by simp
next
  case False
  have "(1 + d) powr t \<le> 1 powr t" using False assms by (intro powr_mono2) auto
  moreover have "(1 + d) powr 1 \<le> (1 + d) powr t" using False assms by (intro powr_mono') auto
  ultimately show ?thesis using False assms by simp
qed

lemma rel_close_powr_base:
  assumes ab: "rel_close e a b" and b: "0 < b" and e: "0 \<le> e" "e < 1" and t: "0 \<le> t" "t \<le> 1"
  shows "rel_close e (a powr t) (b powr t)"
proof -
  define d where "d = a / b - 1"
  have a: "a = b * (1 + d)" using b by (simp add: d_def field_simps)
  have "\<bar>a - b\<bar> \<le> e * b" using ab b by (simp add: rel_close_def)
  moreover have "\<bar>a - b\<bar> = b * \<bar>d\<bar>" using b by (simp add: a abs_mult algebra_simps)
  ultimately have "b * \<bar>d\<bar> \<le> b * e" by (simp add: mult.commute)
  then have d: "\<bar>d\<bar> \<le> e" using b by simp
  then have d1: "- 1 < d" using e by linarith
  have "a powr t = b powr t * (1 + d) powr t"
    unfolding a using b d1 by (simp add: powr_mult)
  then have "a powr t - b powr t = b powr t * ((1 + d) powr t - 1)" by (simp add: algebra_simps)
  then have "\<bar>a powr t - b powr t\<bar> = b powr t * \<bar>(1 + d) powr t - 1\<bar>"
    by (simp add: abs_mult)
  also have "\<dots> \<le> b powr t * e"
    using powr_unit_close[OF d1 t] d by (intro mult_left_mono) auto
  finally show ?thesis by (simp add: rel_close_def mult.commute)
qed

lemma exp_unit_close:
  fixes z :: real
  assumes "\<bar>z\<bar> \<le> 1 / 2"
  shows "\<bar>exp z - 1\<bar> \<le> 2 * \<bar>z\<bar>"
proof (cases "0 \<le> z")
  case True
  then have "exp z \<le> 1 + 2 * z" using assms by (intro real_exp_bound_lemma) auto
  moreover have "1 \<le> exp z" using True by simp
  ultimately show ?thesis using True by simp
next
  case False
  have "1 + z \<le> exp z" by (rule exp_ge_add_one_self)
  moreover have "exp z \<le> 1" using False by simp
  ultimately show ?thesis using False by linarith
qed

lemma powr_exponent_close:
  fixes B h :: real
  assumes "1 \<le> B" "B \<le> 4" "\<bar>h\<bar> \<le> 1 / 10"
  shows "\<bar>B powr h - 1\<bar> \<le> 6 * \<bar>h\<bar>"
proof -
  have l0: "0 \<le> ln B" using assms(1) by simp
  have l3: "ln B \<le> 3" using ln_le_minus_one[of B] assms by simp
  have "\<bar>h * ln B\<bar> = \<bar>h\<bar> * ln B" using l0 by (simp add: abs_mult)
  also have "\<dots> \<le> \<bar>h\<bar> * 3" using l3 by (intro mult_left_mono) auto
  finally have z: "\<bar>h * ln B\<bar> \<le> 3 * \<bar>h\<bar>" by simp
  then have "\<bar>h * ln B\<bar> \<le> 1 / 2" using assms(3) by linarith
  then have "\<bar>exp (h * ln B) - 1\<bar> \<le> 2 * \<bar>h * ln B\<bar>" by (rule exp_unit_close)
  moreover have "B powr h = exp (h * ln B)" using assms(1) by (simp add: powr_def)
  ultimately show ?thesis using z by simp
qed

lemma rel_close_powr_exponent:
  fixes B t t0 :: real
  assumes "1 \<le> B" "B \<le> 4" "\<bar>t - t0\<bar> \<le> d" "d \<le> 1 / 10"
  shows "rel_close (6 * d) (B powr t) (B powr t0)"
proof -
  have "B powr t = B powr t0 * B powr (t - t0)"
    using assms(1) by (simp add: powr_add[symmetric])
  then have "B powr t - B powr t0 = B powr t0 * (B powr (t - t0) - 1)" by (simp add: algebra_simps)
  then have "\<bar>B powr t - B powr t0\<bar> = B powr t0 * \<bar>B powr (t - t0) - 1\<bar>"
    by (simp add: abs_mult)
  also have "\<dots> \<le> B powr t0 * (6 * d)"
  proof (intro mult_left_mono)
    have "\<bar>B powr (t - t0) - 1\<bar> \<le> 6 * \<bar>t - t0\<bar>"
      using assms by (intro powr_exponent_close) auto
    moreover have "6 * \<bar>t - t0\<bar> \<le> 6 * d" using assms(3) by simp
    ultimately show "\<bar>B powr (t - t0) - 1\<bar> \<le> 6 * d" by (rule order_trans)
  qed simp
  finally show ?thesis by (simp add: rel_close_def mult.commute)
qed

lemma fl_reciprocal_close:
  fixes n :: real
  assumes "1 \<le> n" "n \<le> 100"
  shows "\<bar>fl (1 / n) - 1 / n\<bar> \<le> ulp" "0 \<le> fl (1 / n)" "fl (1 / n) \<le> 1"
proof -
  have "1 / 2 ^ 64 \<le> \<bar>1 / n\<bar>"
  proof -
    have "(1::real) / 2 ^ 64 \<le> 1 / 100" by simp
    also have "\<dots> \<le> 1 / n" using assms by (intro divide_left_mono) auto
    finally show ?thesis using assms by simp
  qed
  then have "2 powi (- 1022) \<le> \<bar>1 / n\<bar>" by (rule small_normal)
  then have "\<bar>fl (1 / n) - 1 / n\<bar> \<le> ulp * \<bar>1 / n\<bar>" by (rule fl_rel_error)
  also have "\<dots> \<le> ulp * 1" using assms ulp_pos by (intro mult_left_mono) auto
  finally show "\<bar>fl (1 / n) - 1 / n\<bar> \<le> ulp" by simp
  show "0 \<le> fl (1 / n)" using assms by (intro fl_nonneg) auto
  have "fl (1 / n) \<le> fl 1" using assms by (intro fl_mono_nonneg) auto
  then show "fl (1 / n) \<le> 1" by (simp add: fl_one)
qed

lemma rel_close_abs:
  assumes "rel_close e x y" "e \<le> c" "0 \<le> y" "y \<le> M" "0 \<le> c"
  shows "\<bar>x - y\<bar> \<le> c * M"
proof -
  have "\<bar>x - y\<bar> \<le> e * y" using assms(1,3) by (simp add: rel_close_def)
  also have "\<dots> \<le> c * y" using assms(2,3) by (intro mult_right_mono) auto
  also have "\<dots> \<le> c * M" using assms(4,5) by (intro mult_left_mono) auto
  finally show ?thesis .
qed

lemma fl_normal_error:
  fixes x :: real
  assumes "1 \<le> x"
  shows "\<bar>fl x - x\<bar> \<le> x / 9000000000000000"
proof -
  have "1 / 2 ^ 64 \<le> \<bar>x\<bar>"
  proof -
    have "(1::real) / 2 ^ 64 \<le> 1" by simp
    then show ?thesis using assms by linarith
  qed
  then have "2 powi (- 1022) \<le> \<bar>x\<bar>" by (rule small_normal)
  then have "\<bar>fl x - x\<bar> \<le> ulp * \<bar>x\<bar>" by (rule fl_rel_error)
  also have "\<dots> \<le> 1 / 9000000000000000 * \<bar>x\<bar>"
    using ulp_small(1) by (intro mult_right_mono) auto
  finally show ?thesis using assms by simp
qed

text \<open>forward: \<open>compound_daily\<close>\<close>

lemma daily_base_close:
  assumes r: "1 / 1000 \<le> r" "r \<le> 100"
  shows "rel_close (6 * ulp) (fadd 1 (fdiv (fdiv r 100) 365)) (1 + r / 36500)"
    and "1 \<le> fadd 1 (fdiv (fdiv r 100) 365)"
    and "fadd 1 (fdiv (fdiv r 100) 365) \<le> 4"
proof -
  have r0: "1 / 2 ^ 63 \<le> \<bar>r / 100\<bar>" using r(1) by simp
  have s1: "rel_close (2 * ulp) (fl (r / 100)) (r / 100)"
    by (rule rel_close_fl_step[OF rel_close_refl _ _ r0]) simp_all
  have s2: "rel_close (2 * ulp) (fl (r / 100) / 365) (r / 100 / 365)"
    by (rule rel_close_divide[OF s1])
  have r1: "1 / 2 ^ 63 \<le> \<bar>r / 100 / 365\<bar>" using r(1) by simp
  have s3: "rel_close (4 * ulp) (fl (fl (r / 100) / 365)) (r / 100 / 365)"
    by (rule rel_close_fl_step[OF s2 _ _ r1]) (use ulp_small ulp_pos in simp_all)
  have s4: "rel_close (4 * ulp) (1 + fl (fl (r / 100) / 365)) (1 + r / 100 / 365)"
    by (rule rel_close_add_left[OF s3]) (use r ulp_pos in simp_all)
  have r2: "1 / 2 ^ 63 \<le> \<bar>1 + r / 100 / 365\<bar>"
  proof -
    have "(1::real) / 2 ^ 63 \<le> 1" by simp
    then show ?thesis using r(1) by simp
  qed
  have s5: "rel_close (6 * ulp) (fl (1 + fl (fl (r / 100) / 365))) (1 + r / 100 / 365)"
    by (rule rel_close_fl_step[OF s4 _ _ r2]) (use ulp_small ulp_pos in simp_all)
  have eq: "1 + r / 100 / 365 = 1 + r / 36500" by simp
  show c: "rel_close (6 * ulp) (fadd 1 (fdiv (fdiv r 100) 365)) (1 + r / 36500)"
    using s5 unfolding eq by (simp only: fdiv_def fadd_def)
  have "0 \<le> fl (fl (r / 100) / 365)"
    using r(1) by (intro fl_nonneg divide_nonneg_nonneg) auto
  then have "1 \<le> fl (1 + fl (fl (r / 100) / 365))" by (intro fl_ge_one) simp
  then show "1 \<le> fadd 1 (fdiv (fdiv r 100) 365)" by (simp only: fdiv_def fadd_def)
  have b: "1 + r / 36500 \<le> 2" using r(2) by simp
  have "6 * ulp \<le> 1" using ulp_small(1) by linarith
  then have "6 * ulp * (1 + r / 36500) \<le> 1 * 2"
    using b r(1) ulp_pos by (intro mult_mono) auto
  moreover have "fadd 1 (fdiv (fdiv r 100) 365) \<le> (1 + r / 36500) + 6 * ulp * (1 + r / 36500)"
    using r(1) by (intro rel_close_bounds(2)[OF c]) auto
  ultimately show "fadd 1 (fdiv (fdiv r 100) 365) \<le> 4" using b by linarith
qed

lemma daily_growth_bounds:
  fixes r :: real
  assumes r: "1 / 10 \<le> r" "r \<le> 100"
  shows "1 + 3 / 36500 \<le> (1 + r / 36500) ^ 30" "(1 + r / 36500) ^ 30 \<le> 11 / 10"
proof -
  have "real 30 * ((1 + r / 36500) - 1) \<le> (1 + r / 36500) ^ 30 - 1 ^ 30"
    using r(1) by (intro power_diff_lower) auto
  then show "1 + 3 / 36500 \<le> (1 + r / 36500) ^ 30" using r(1) by simp
  have "(1 + r / 36500) ^ 30 \<le> (1003 / 1000) ^ 30"
    using r by (intro power_mono) auto
  also have "\<dots> \<le> 11 / 10" by (simp add: power_divide)
  finally show "(1 + r / 36500) ^ 30 \<le> 11 / 10" .
qed

lemma forward_compound:
  assumes P: "30000 \<le> P" and w: "rel_close (3 / 1000000000000) w W"
    and W: "1 + 8 / 100000 \<le> W" "W \<le> 11 / 10"
  defines "I \<equiv> Math_round (fsub (fmul P w) P)"
  shows "\<bar>of_int I - (P * W - P)\<bar> \<le> 1 / 2 + P * (6 / 1000000000000)"
    and "1 \<le> I"
proof -
  define A where "A = P * W"
  define amount where "amount = fmul P w"
  define interest where "interest = fsub amount P"
  have P0: "0 < P" using P by simp
  have s9: "rel_close (3 / 1000000000000) (P * w) (P * W)"
    by (rule rel_close_times_left[OF w])
  have A1: "1 / 2 ^ 63 \<le> \<bar>P * W\<bar>"
  proof -
    have "1 * 1 \<le> P * W" using P W(1) by (intro mult_mono) auto
    moreover have "(1::real) / 2 ^ 63 \<le> 1" by simp
    ultimately show ?thesis by linarith
  qed
  have s10: "rel_close (4 / 1000000000000) (fl (P * w)) (P * W)"
    by (rule rel_close_fl_step[OF s9 _ _ A1]) (use ulp_small(1) in simp_all)
  then have am: "rel_close (4 / 1000000000000) amount A"
    by (simp only: amount_def A_def fmul_def)
  have A_hi': "A \<le> P * (11 / 10)" unfolding A_def using W(2) P0 by (intro mult_left_mono) auto
  have A_lo': "P * (1 + 8 / 100000) \<le> A" unfolding A_def using W(1) P0 by (intro mult_left_mono) auto
  have A_hi: "A \<le> 11 / 10 * P" using A_hi' by simp
  have A_lo: "P + 8 / 100000 * P \<le> A" using A_lo' by (simp add: algebra_simps)
  have A0: "0 \<le> A" using A_lo P0 by linarith
  have "\<bar>amount - A\<bar> \<le> 4 / 1000000000000 * (P * (11 / 10))"
    by (rule rel_close_abs[OF am _ A0 A_hi']) simp_all
  then have f1: "\<bar>amount - A\<bar> \<le> 44 / 10000000000000 * P" by simp
  have z1: "1 \<le> amount - P" using f1 A_lo P by linarith
  have "\<bar>fl (amount - P) - (amount - P)\<bar> \<le> (amount - P) / 9000000000000000"
    by (rule fl_normal_error[OF z1])
  then have f2: "\<bar>interest - (amount - P)\<bar> \<le> (amount - P) / 9000000000000000"
    by (simp only: interest_def fsub_def)
  have z_hi: "amount - P \<le> P" using f1 A_hi P0 by linarith
  have "(amount - P) / 9000000000000000 \<le> P / 9000000000000000"
    using z_hi by (intro divide_right_mono) auto
  then have f2': "\<bar>interest - (amount - P)\<bar> \<le> 1 / 9000000000000000 * P"
    using f2 by simp
  have f3: "\<bar>interest - (A - P)\<bar> \<le> 5 / 1000000000000 * P"
    using f1 f2' P0 by linarith
  have I: "I = Math_round interest"
    by (simp only: I_def interest_def amount_def)
  have "\<bar>of_int I - (A - P)\<bar> \<le> 1 / 2 + 6 / 1000000000000 * P"
    using f3 Math_round_error[of interest] P0 unfolding I by linarith
  then have "\<bar>of_int I - (A - P)\<bar> \<le> 1 / 2 + P * (6 / 1000000000000)" by simp
  then show "\<bar>of_int I - (P * W - P)\<bar> \<le> 1 / 2 + P * (6 / 1000000000000)"
    by (simp only: A_def)
  have "1 \<le> interest" using f3 A_lo P by linarith
  then show "1 \<le> I" unfolding I Math_round_def by linarith
qed

lemma daily_power_close:
  assumes pw: "pow_accurate pw" and r: "1 / 1000 \<le> r" "r \<le> 100"
  shows "rel_close (3 / 1000000000000) (pw (fadd 1 (fdiv (fdiv r 100) 365)) 30) ((1 + r / 36500) ^ 30)"
proof -
  define b0 where "b0 = fadd 1 (fdiv (fdiv r 100) 365)"
  define W where "W = (1 + r / 36500) ^ 30"
  note b = daily_base_close[OF r, folded b0_def]
  have u6: "6 * ulp \<le> 1 / 1000000000000000" and u0: "0 \<le> 6 * ulp"
    using ulp_small(1) ulp_pos by linarith+
  have s6: "rel_close (1 / 1000000000000) (pw b0 30) (b0 powr 30)"
    by (rule pow_accurate_close[OF pw b(2) b(3)]) simp_all
  have pn: "b0 powr 30 = b0 ^ 30" using b(2) by simp
  have s7: "rel_close (2 * real 30 * (6 * ulp)) (b0 ^ 30) ((1 + r / 36500) ^ 30)"
    by (rule rel_close_power[OF b(1) u0]) (use u6 in simp)
  have s7': "rel_close (1 / 1000000000000) (b0 ^ 30) W"
    by (rule rel_close_mono[OF s7[folded W_def]]) (use u6 in simp)
  have s8: "rel_close (2 * (1 / 1000000000000) + 1 / 1000000000000) (pw b0 30) W"
    by (rule rel_close_trans[OF s6[unfolded pn] s7']) simp_all
  then show ?thesis by (simp add: b0_def W_def)
qed

lemma forward_daily:
  assumes pw: "pow_accurate pw" and P: "30000 \<le> P" and r: "1 / 10 \<le> r" "r \<le> 100"
  defines "I \<equiv> Math_round (fsub (fmul P (pw (fadd 1 (fdiv (fdiv r 100) 365)) 30)) P)"
  shows "\<bar>of_int I - (P * (1 + r / 36500) ^ 30 - P)\<bar> \<le> 1 / 2 + P * (6 / 1000000000000)"
    and "1 \<le> I"
proof -
  note g = daily_growth_bounds[OF r]
  have W: "1 + 8 / 100000 \<le> (1 + r / 36500) ^ 30" using g(1) by simp
  have r': "1 / 1000 \<le> r" using r(1) by simp
  show "\<bar>of_int I - (P * (1 + r / 36500) ^ 30 - P)\<bar> \<le> 1 / 2 + P * (6 / 1000000000000)"
    unfolding I_def by (rule forward_compound(1)[OF P daily_power_close[OF pw r' r(2)] W g(2)])
  show "1 \<le> I"
    unfolding I_def by (rule forward_compound(2)[OF P daily_power_close[OF pw r' r(2)] W g(2)])
qed

text \<open>backward: the 30th root of \<open>compound_daily\<close>\<close>

lemma abs_power_diff_lower:
  fixes s t :: real
  assumes "1 \<le> s" "1 \<le> t"
  shows "real n * \<bar>s - t\<bar> \<le> \<bar>s ^ n - t ^ n\<bar>"
proof (cases "t \<le> s")
  case True
  then have "t ^ n \<le> s ^ n" using assms by (intro power_mono) auto
  then show ?thesis using power_diff_lower[OF assms(2) True, of n] True by simp
next
  case False
  then have ts: "s \<le> t" by simp
  then have "s ^ n \<le> t ^ n" using assms by (intro power_mono) auto
  then show ?thesis using power_diff_lower[OF assms(1) ts, of n] ts by simp
qed

lemma interest_ratio_close:
  fixes I :: int and P W c :: real
  assumes P: "30000 \<le> P" and I: "\<bar>of_int I - (P * W - P)\<bar> \<le> 1 / 2 + P * c"
  shows "\<bar>of_int I / P - (W - 1)\<bar> \<le> 1 / 60000 + c"
proof -
  have P0: "0 < P" using P by simp
  have "of_int I / P - (W - 1) = (of_int I - (P * W - P)) / P"
    using P0 by (simp add: field_simps)
  then have "\<bar>of_int I / P - (W - 1)\<bar> = \<bar>of_int I - (P * W - P)\<bar> / P"
    using P0 by simp
  also have "\<dots> \<le> (1 / 2 + P * c) / P" using I P0 by (intro divide_right_mono) auto
  also have "\<dots> = 1 / (2 * P) + c" using P0 by (simp add: field_simps)
  also have "\<dots> \<le> 1 / (2 * 30000) + c" using P by (intro add_mono divide_left_mono) auto
  finally show ?thesis by simp
qed

lemma ratio_close:
  fixes y :: real
  assumes y: "1 / 100000 \<le> y" "y \<le> 1"
  shows "rel_close (4 * ulp) (fadd 1 (fl y)) (1 + y)" "1 \<le> fadd 1 (fl y)" "fadd 1 (fl y) \<le> 4"
proof -
  have y0: "1 / 2 ^ 63 \<le> \<bar>y\<bar>"
  proof -
    have "(1::real) / 2 ^ 63 \<le> 1 / 100000" by simp
    then show ?thesis using y(1) by linarith
  qed
  have s1: "rel_close (2 * ulp) (fl y) y"
    by (rule rel_close_fl_step[OF rel_close_refl _ _ y0]) simp_all
  have s2: "rel_close (2 * ulp) (1 + fl y) (1 + y)"
    by (rule rel_close_add_left[OF s1]) (use y ulp_pos in simp_all)
  have y1: "1 / 2 ^ 63 \<le> \<bar>1 + y\<bar>"
  proof -
    have "(1::real) / 2 ^ 63 \<le> 1" by simp
    then show ?thesis using y(1) by linarith
  qed
  have s3: "rel_close (4 * ulp) (fl (1 + fl y)) (1 + y)"
    by (rule rel_close_fl_step[OF s2 _ _ y1]) (use ulp_small ulp_pos in simp_all)
  then show c: "rel_close (4 * ulp) (fadd 1 (fl y)) (1 + y)" by (simp only: fadd_def)
  have "0 \<le> fl y" using y(1) by (intro fl_nonneg) auto
  then have "1 \<le> fl (1 + fl y)" by (intro fl_ge_one) simp
  then show "1 \<le> fadd 1 (fl y)" by (simp only: fadd_def)
  have "4 * ulp \<le> 1" using ulp_small(1) by linarith
  then have "4 * ulp * (1 + y) \<le> 1 * 2" using y ulp_pos by (intro mult_mono) auto
  moreover have "fadd 1 (fl y) \<le> (1 + y) + 4 * ulp * (1 + y)"
    using y(1) by (intro rel_close_bounds(2)[OF c]) auto
  ultimately show "fadd 1 (fl y) \<le> 4" using y(2) by linarith
qed

lemma root_power:
  fixes B :: real
  assumes "1 \<le> B"
  shows "(B powr (1 / 30)) ^ 30 = B" "1 \<le> B powr (1 / 30)"
proof -
  have "0 < B powr (1 / 30)" using assms by simp
  then have "(B powr (1 / 30)) ^ 30 = (B powr (1 / 30)) powr 30" by simp
  also have "\<dots> = B powr (1 / 30 * 30)" by (simp only: powr_powr)
  also have "\<dots> = B" using assms by simp
  finally show "(B powr (1 / 30)) ^ 30 = B" .
  show "1 \<le> B powr (1 / 30)" using assms by (intro ge_one_powr_ge_zero) auto
qed

lemma inverse_daily:
  fixes I :: int
  assumes pw: "pow_accurate pw" and P: "30000 \<le> P" and r: "1 / 10 \<le> r" "r \<le> 100"
    and I: "\<bar>of_int I - (P * (1 + r / 36500) ^ 30 - P)\<bar> \<le> 1 / 2 + P * (6 / 1000000000000)"
  shows "\<bar>round2 (fmul (fsub (pw (fadd 1 (fdiv (of_int I) P)) (fdiv 1 30)) 1) 365) - r\<bar> \<le> 26 / 1000"
proof -
  define W where "W = (1 + r / 36500) ^ 30"
  define y where "y = of_int I / P"
  define ratio where "ratio = fadd 1 (fl y)"
  define e30 where "e30 = fl (1 / 30)"
  define root where "root = pw ratio e30"
  define k where "k = (1 + y) powr (1 / 30)"
  define dailyRate where "dailyRate = fl (root - 1)"
  define rate where "rate = fl (dailyRate * 365)"
  note g = daily_growth_bounds[OF r, folded W_def]
  have yW: "\<bar>y - (W - 1)\<bar> \<le> 1 / 60000 + 6 / 1000000000000"
    unfolding y_def by (rule interest_ratio_close[OF P I[folded W_def]])
  have y_lo: "6 / 100000 \<le> y" and y_hi: "y \<le> 11 / 100" using yW g by linarith+
  have y_lo': "1 / 100000 \<le> y" and y_hi': "y \<le> 1" using y_lo y_hi by linarith+
  note rt = ratio_close[OF y_lo' y_hi', folded ratio_def]
  note e = fl_reciprocal_close[of 30, simplified, folded e30_def]
  have B1: "1 \<le> 1 + y" and B4: "1 + y \<le> 4" and B0: "0 < 1 + y" using y_lo y_hi by linarith+
  have u4: "4 * ulp < 1" "0 \<le> 4 * ulp" "0 \<le> 6 * ulp" "6 * ulp \<le> 1" "ulp \<le> 1 / 10"
    using ulp_small(1) ulp_pos by linarith+
  have s1: "rel_close (1 / 1000000000000) root (ratio powr e30)"
    unfolding root_def using e by (intro pow_accurate_close[OF pw rt(2) rt(3)]) auto
  have s2: "rel_close (4 * ulp) (ratio powr e30) ((1 + y) powr e30)"
    by (rule rel_close_powr_base[OF rt(1) B0 u4(2) u4(1) e(2) e(3)])
  have s3: "rel_close (6 * ulp) ((1 + y) powr e30) ((1 + y) powr (1 / 30))"
    by (rule rel_close_powr_exponent[OF B1 B4 e(1) u4(5)])
  have s4: "rel_close (2 * (4 * ulp) + 6 * ulp) (ratio powr e30) k"
    unfolding k_def by (rule rel_close_trans[OF s2 s3 u4(2) u4(3) u4(4)])
  have s4': "rel_close (1 / 1000000000000) (ratio powr e30) k"
    by (rule rel_close_mono[OF s4]) (use ulp_small(1) in linarith)
  have s5: "rel_close (2 * (1 / 1000000000000) + 1 / 1000000000000) root k"
    by (rule rel_close_trans[OF s1 s4']) simp_all
  note kp = root_power[OF B1, folded k_def]
  have k30: "real 30 * (k - 1) \<le> k ^ 30 - 1 ^ 30"
    by (rule power_diff_lower[OF _ kp(2)]) simp
  then have k_hi: "k \<le> 1 + 4 / 1000" using kp(1) y_hi by simp
  have "k ^ Suc 29 - 1 ^ Suc 29 \<le> real (Suc 29) * (1004 / 1000) ^ 29 * (k - 1)"
    using kp(2) k_hi by (intro power_diff_upper) auto
  then have "y \<le> 30 * (1004 / 1000) ^ 29 * (k - 1)" using kp(1) by simp
  moreover have "30 * (1004 / 1000 :: real) ^ 29 \<le> 34" by (simp add: power_divide)
  then have "30 * (1004 / 1000) ^ 29 * (k - 1) \<le> 34 * (k - 1)"
    using kp(2) by (intro mult_right_mono) auto
  ultimately have "y \<le> 34 * (k - 1)" by (rule order_trans)
  then have "y \<le> 34 * k - 34" by simp
  then have k_lo: "1 + 17 / 10000000 \<le> k" using y_lo by linarith
  have k0: "0 \<le> k" using kp(2) by linarith
  have "\<bar>root - k\<bar> \<le> (2 * (1 / 1000000000000) + 1 / 1000000000000) * 2"
    by (rule rel_close_abs[OF s5 _ k0]) (use k_hi in simp_all)
  then have rk: "\<bar>root - k\<bar> \<le> 6 / 1000000000000" by simp
  have "\<bar>root - 1\<bar> \<le> 2" using rk k_hi kp(2) by linarith
  then have "\<bar>fl (root - 1) - (root - 1)\<bar> \<le> 4 * ulp" by (rule fl_abs_small)
  then have dk: "\<bar>dailyRate - (k - 1)\<bar> \<le> 7 / 1000000000000"
    unfolding dailyRate_def using rk ulp_small(1) by linarith
  have "\<bar>dailyRate * 365\<bar> \<le> 2" using dk k_hi k_lo by linarith
  then have "\<bar>fl (dailyRate * 365) - dailyRate * 365\<bar> \<le> 4 * ulp" by (rule fl_abs_small)
  then have rk2: "\<bar>rate - (365 * k - 365)\<bar> \<le> 3 / 1000000000"
    unfolding rate_def using dk ulp_small(1) by linarith
  have "1 / 10000 \<le> rate" using rk2 k_lo by linarith
  then have rate_lo: "1 / 2 ^ 20 \<le> rate" by simp
  have rate_hi: "rate \<le> 3" using rk2 k_hi by linarith
  have R: "\<bar>round2 rate - 100 * rate\<bar> \<le> 1 / 200 + 1 / 1000000000000"
    by (rule round2_close[OF rate_lo rate_hi])
  have b1: "1 \<le> 1 + r / 36500" using r(1) by simp
  have "real 30 * \<bar>k - (1 + r / 36500)\<bar> \<le> \<bar>k ^ 30 - (1 + r / 36500) ^ 30\<bar>"
    by (rule abs_power_diff_lower[OF kp(2) b1])
  then have "30 * \<bar>k - (1 + r / 36500)\<bar> \<le> \<bar>y - (W - 1)\<bar>"
    unfolding kp(1) W_def by simp
  then have "30 * \<bar>k - (1 + r / 36500)\<bar> \<le> 1 / 60000 + 6 / 1000000000000"
    using yW by linarith
  then have kb: "\<bar>k - 1 - r / 36500\<bar> \<le> 1 / 1800000 + 2 / 10000000000000"
    by (simp add: algebra_simps)
  have "\<bar>round2 rate - r\<bar> \<le> 26 / 1000" using R rk2 kb by linarith
  moreover have "rate = fmul (fsub (pw (fadd 1 (fdiv (of_int I) P)) (fdiv 1 30)) 1) 365"
    by (simp only: rate_def dailyRate_def root_def ratio_def e30_def y_def fmul_def fsub_def fdiv_def)
  ultimately show ?thesis by simp
qed

text \<open>\<open>compound_annually\<close>: the 12th root forward, the 12th power backward\<close>

lemma abs_power_diff_upper:
  fixes s t M :: real
  assumes "0 \<le> s" "s \<le> M" "0 \<le> t" "t \<le> M"
  shows "\<bar>s ^ Suc n - t ^ Suc n\<bar> \<le> real (Suc n) * M ^ n * \<bar>s - t\<bar>"
proof (cases "t \<le> s")
  case True
  then have "t ^ Suc n \<le> s ^ Suc n" using assms by (intro power_mono) auto
  then show ?thesis using power_diff_upper[OF assms(3) True assms(2), of n] True by simp
next
  case False
  then have ts: "s \<le> t" by simp
  then have "s ^ Suc n \<le> t ^ Suc n" using assms by (intro power_mono) auto
  then show ?thesis using power_diff_upper[OF assms(1) ts assms(4), of n] ts by simp
qed

lemma root12_power:
  fixes B :: real
  assumes "1 \<le> B"
  shows "(B powr (1 / 12)) ^ 12 = B" "1 \<le> B powr (1 / 12)"
proof -
  have "0 < B powr (1 / 12)" using assms by simp
  then have "(B powr (1 / 12)) ^ 12 = (B powr (1 / 12)) powr 12" by simp
  also have "\<dots> = B powr (1 / 12 * 12)" by (simp only: powr_powr)
  also have "\<dots> = B" using assms by simp
  finally show "(B powr (1 / 12)) ^ 12 = B" .
  show "1 \<le> B powr (1 / 12)" using assms by (intro ge_one_powr_ge_zero) auto
qed

lemma annual_root_bounds:
  fixes r :: real
  assumes r: "1 / 10 \<le> r" "r \<le> 100"
  shows "1 + 8 / 100000 \<le> (1 + r / 100) powr (1 / 12)" "(1 + r / 100) powr (1 / 12) \<le> 106 / 100"
proof -
  define w where "w = (1 + r / 100) powr (1 / 12)"
  have B1: "1 \<le> 1 + r / 100" using r(1) by simp
  note wp = root12_power[OF B1, folded w_def]
  have "\<not> w < 1 + 8 / 100000"
  proof
    assume "w < 1 + 8 / 100000"
    then have "w ^ 12 \<le> (1 + 8 / 100000) ^ 12" using wp(2) by (intro power_mono) auto
    moreover have "(1 + 8 / 100000 :: real) ^ 12 < 1 + 1 / 1000" by (simp add: power_divide)
    ultimately show False using wp(1) r(1) by simp
  qed
  then show "1 + 8 / 100000 \<le> (1 + r / 100) powr (1 / 12)" by (simp add: w_def)
  have "\<not> 106 / 100 < w"
  proof
    assume "106 / 100 < w"
    then have "(106 / 100) ^ 12 \<le> w ^ 12" by (intro power_mono) auto
    moreover have "2 < (106 / 100 :: real) ^ 12" by (simp add: power_divide)
    ultimately show False using wp(1) r(2) by simp
  qed
  then show "(1 + r / 100) powr (1 / 12) \<le> 106 / 100" by (simp add: w_def)
qed

lemma annual_root_close:
  assumes pw: "pow_accurate pw" and r: "1 / 1000 \<le> r" "r \<le> 100"
  shows "rel_close (3 / 1000000000000) (pw (fadd 1 (fdiv r 100)) (fdiv 1 12)) ((1 + r / 100) powr (1 / 12))"
proof -
  define y where "y = r / 100"
  define b1 where "b1 = fadd 1 (fl y)"
  define e12 where "e12 = fl (1 / 12)"
  have y: "1 / 100000 \<le> y" "y \<le> 1" using r by (simp_all add: y_def)
  note rt = ratio_close[OF y, folded b1_def]
  note e = fl_reciprocal_close[of 12, simplified, folded e12_def]
  have B1: "1 \<le> 1 + y" and B4: "1 + y \<le> 4" and B0: "0 < 1 + y" using y by linarith+
  have u4: "4 * ulp < 1" "0 \<le> 4 * ulp" "0 \<le> 6 * ulp" "6 * ulp \<le> 1" "ulp \<le> 1 / 10"
    using ulp_small(1) ulp_pos by linarith+
  have s1: "rel_close (1 / 1000000000000) (pw b1 e12) (b1 powr e12)"
    using e by (intro pow_accurate_close[OF pw rt(2) rt(3)]) auto
  have s2: "rel_close (4 * ulp) (b1 powr e12) ((1 + y) powr e12)"
    by (rule rel_close_powr_base[OF rt(1) B0 u4(2) u4(1) e(2) e(3)])
  have s3: "rel_close (6 * ulp) ((1 + y) powr e12) ((1 + y) powr (1 / 12))"
    by (rule rel_close_powr_exponent[OF B1 B4 e(1) u4(5)])
  have s4: "rel_close (2 * (4 * ulp) + 6 * ulp) (b1 powr e12) ((1 + y) powr (1 / 12))"
    by (rule rel_close_trans[OF s2 s3 u4(2) u4(3) u4(4)])
  have s4': "rel_close (1 / 1000000000000) (b1 powr e12) ((1 + y) powr (1 / 12))"
    by (rule rel_close_mono[OF s4]) (use ulp_small(1) in linarith)
  have s5: "rel_close (2 * (1 / 1000000000000) + 1 / 1000000000000) (pw b1 e12) ((1 + y) powr (1 / 12))"
    by (rule rel_close_trans[OF s1 s4']) simp_all
  have "pw b1 e12 = pw (fadd 1 (fdiv r 100)) (fdiv 1 12)"
    by (simp only: b1_def e12_def y_def fdiv_def)
  then show ?thesis using s5 by (simp add: y_def)
qed

lemma forward_annually:
  assumes pw: "pow_accurate pw" and P: "30000 \<le> P" and r: "1 / 10 \<le> r" "r \<le> 100"
  defines "I \<equiv> Math_round (fsub (fmul P (pw (fadd 1 (fdiv r 100)) (fdiv 1 12))) P)"
  shows "\<bar>of_int I - (P * (1 + r / 100) powr (1 / 12) - P)\<bar> \<le> 1 / 2 + P * (6 / 1000000000000)"
    and "1 \<le> I"
proof -
  note g = annual_root_bounds[OF r]
  have W: "(1 + r / 100) powr (1 / 12) \<le> 11 / 10" using g(2) by simp
  have r': "1 / 1000 \<le> r" using r(1) by simp
  show "\<bar>of_int I - (P * (1 + r / 100) powr (1 / 12) - P)\<bar> \<le> 1 / 2 + P * (6 / 1000000000000)"
    unfolding I_def by (rule forward_compound(1)[OF P annual_root_close[OF pw r' r(2)] g(1) W])
  show "1 \<le> I"
    unfolding I_def by (rule forward_compound(2)[OF P annual_root_close[OF pw r' r(2)] g(1) W])
qed

lemma inverse_annually:
  fixes I :: int
  assumes pw: "pow_accurate pw" and P: "30000 \<le> P" and r: "1 / 10 \<le> r" "r \<le> 100"
    and I: "\<bar>of_int I - (P * (1 + r / 100) powr (1 / 12) - P)\<bar> \<le> 1 / 2 + P * (6 / 1000000000000)"
  shows "\<bar>round2 (fsub (pw (fadd 1 (fdiv (of_int I) P)) 12) 1) - r\<bar> \<le> 44 / 1000"
proof -
  define w where "w = (1 + r / 100) powr (1 / 12)"
  define y where "y = of_int I / P"
  define ratio where "ratio = fadd 1 (fl y)"
  define K where "K = (1 + y) ^ 12"
  define rate where "rate = fl (pw ratio 12 - 1)"
  note g = annual_root_bounds[OF r, folded w_def]
  have B1: "1 \<le> 1 + r / 100" using r(1) by simp
  note wp = root12_power[OF B1, folded w_def]
  have yW: "\<bar>y - (w - 1)\<bar> \<le> 1 / 60000 + 6 / 1000000000000"
    unfolding y_def by (rule interest_ratio_close[OF P I[folded w_def]])
  have y_lo: "6 / 100000 \<le> y" and y_hi: "1 + y \<le> 10601 / 10000" using yW g by linarith+
  have y_lo': "1 / 100000 \<le> y" and y_hi': "y \<le> 1" using y_lo y_hi by linarith+
  note rt = ratio_close[OF y_lo' y_hi', folded ratio_def]
  have u4: "0 \<le> 4 * ulp" "4 * ulp \<le> 1 / 1000000000000000"
    using ulp_small(1) ulp_pos by linarith+
  have s1: "rel_close (1 / 1000000000000) (pw ratio 12) (ratio powr 12)"
    by (intro pow_accurate_close[OF pw rt(2) rt(3)]) auto
  have pn: "ratio powr 12 = ratio ^ 12" using rt(2) by simp
  have s2: "rel_close (2 * real 12 * (4 * ulp)) (ratio ^ 12) ((1 + y) ^ 12)"
    by (rule rel_close_power[OF rt(1) u4(1)]) (use u4(2) in simp)
  have s2': "rel_close (1 / 1000000000000) (ratio ^ 12) K"
    by (rule rel_close_mono[OF s2[folded K_def]]) (use u4(2) in simp)
  have s3: "rel_close (2 * (1 / 1000000000000) + 1 / 1000000000000) (pw ratio 12) K"
    by (rule rel_close_trans[OF s1[unfolded pn] s2']) simp_all
  have "K \<le> (10601 / 10000) ^ 12" unfolding K_def using y_hi y_lo by (intro power_mono) auto
  moreover have "(10601 / 10000 :: real) ^ 12 \<le> 202 / 100" by (simp add: power_divide)
  ultimately have K_hi: "K \<le> 202 / 100" by (rule order_trans)
  have "real 12 * ((1 + y) - 1) \<le> (1 + y) ^ 12 - 1 ^ 12"
    using y_lo by (intro power_diff_lower) auto
  then have K_lo: "1 + 12 * y \<le> K" by (simp add: K_def)
  have K0: "0 \<le> K" using K_lo y_lo by linarith
  have "\<bar>pw ratio 12 - K\<bar> \<le> (2 * (1 / 1000000000000) + 1 / 1000000000000) * (202 / 100)"
    by (rule rel_close_abs[OF s3 _ K0 K_hi]) simp_all
  then have pk: "\<bar>pw ratio 12 - K\<bar> \<le> 7 / 1000000000000" by simp
  have "\<bar>pw ratio 12 - 1\<bar> \<le> 2" using pk K_hi K_lo y_lo by linarith
  then have "\<bar>fl (pw ratio 12 - 1) - (pw ratio 12 - 1)\<bar> \<le> 4 * ulp" by (rule fl_abs_small)
  then have rk: "\<bar>rate - (K - 1)\<bar> \<le> 8 / 1000000000000"
    unfolding rate_def using pk u4(2) by linarith
  have "1 / 10000 \<le> rate" using rk K_lo y_lo by linarith
  then have rate_lo: "1 / 2 ^ 20 \<le> rate" by simp
  have rate_hi: "rate \<le> 3" using rk K_hi by linarith
  have R: "\<bar>round2 rate - 100 * rate\<bar> \<le> 1 / 200 + 1 / 1000000000000"
    by (rule round2_close[OF rate_lo rate_hi])
  have w_hi: "w \<le> 10601 / 10000" and w0: "0 \<le> w" and y0: "0 \<le> 1 + y"
    using g y_lo by linarith+
  have "\<bar>(1 + y) ^ Suc 11 - w ^ Suc 11\<bar> \<le> real (Suc 11) * (10601 / 10000) ^ 11 * \<bar>(1 + y) - w\<bar>"
    by (rule abs_power_diff_upper[OF y0 y_hi w0 w_hi])
  moreover have "real (Suc 11) * (10601 / 10000) ^ 11 \<le> 23" by (simp add: power_divide)
  then have "real (Suc 11) * (10601 / 10000) ^ 11 * \<bar>(1 + y) - w\<bar> \<le> 23 * \<bar>(1 + y) - w\<bar>"
    by (intro mult_right_mono) auto
  ultimately have "\<bar>(1 + y) ^ Suc 11 - w ^ Suc 11\<bar> \<le> 23 * \<bar>(1 + y) - w\<bar>"
    by (rule order_trans)
  moreover have "(1 + y) ^ Suc 11 = K" by (simp add: K_def)
  moreover have "w ^ Suc 11 = 1 + r / 100" using wp(1) by simp
  moreover have "\<bar>(1 + y) - w\<bar> = \<bar>y - (w - 1)\<bar>" by simp
  ultimately have "\<bar>K - (1 + r / 100)\<bar> \<le> 23 * \<bar>y - (w - 1)\<bar>" by simp
  moreover have "23 * \<bar>y - (w - 1)\<bar> \<le> 23 * (1 / 60000 + 6 / 1000000000000)"
    using yW by (intro mult_left_mono) auto
  ultimately have "\<bar>K - (1 + r / 100)\<bar> \<le> 23 * (1 / 60000 + 6 / 1000000000000)"
    by (rule order_trans)
  moreover have "K - (1 + r / 100) = K - 1 - r / 100" by simp
  ultimately have "\<bar>K - 1 - r / 100\<bar> \<le> 23 * (1 / 60000 + 6 / 1000000000000)"
    by (simp only:)
  then have kb: "\<bar>K - 1 - r / 100\<bar> \<le> 23 / 60000 + 138 / 1000000000000" by simp
  have "\<bar>round2 rate - r\<bar> \<le> 44 / 1000" using R rk kb by linarith
  moreover have "rate = fsub (pw (fadd 1 (fdiv (of_int I) P)) 12) 1"
    by (simp only: rate_def ratio_def y_def fsub_def fdiv_def)
  ultimately show ?thesis by simp
qed

text \<open>the round trip of the two compound schemes\<close>

lemma round_trip_daily:
  assumes pw: "pow_accurate pw" and P: "30000 \<le> P" and r: "1 / 10 \<le> r" "r \<le> 100"
  shows "\<exists>R. calculateAPRFromInterest pw (of_int (calculateInterest pw (- P) r ''compound_daily'' f)) P ''compound_daily'' = Some R
            \<and> \<bar>R - r\<bar> \<le> 26 / 1000"
proof -
  define I where "I = Math_round (fsub (fmul P (pw (fadd 1 (fdiv (fdiv r 100) 365)) 30)) P)"
  have P0: "P \<noteq> 0" "\<bar>P\<bar> = P" and r0: "r \<noteq> 0" using P r by simp_all
  have ci: "calculateInterest pw (- P) r ''compound_daily'' f = I"
    using P0 r0 by (simp add: calculateInterest_def I_def)
  note fw = forward_daily[OF pw P r, folded I_def]
  have I0: "real_of_int I \<noteq> 0" "\<bar>real_of_int I\<bar> = of_int I" using fw(2) by simp_all
  have "\<bar>round2 (fmul (fsub (pw (fadd 1 (fdiv (of_int I) P)) (fdiv 1 30)) 1) 365) - r\<bar> \<le> 26 / 1000"
    by (rule inverse_daily[OF pw P r fw(1)])
  then show ?thesis
    unfolding ci using I0 P0 by (simp add: calculateAPRFromInterest_def)
qed

lemma round_trip_annually:
  assumes pw: "pow_accurate pw" and P: "30000 \<le> P" and r: "1 / 10 \<le> r" "r \<le> 100"
  shows "\<exists>R. calculateAPRFromInterest pw (of_int (calculateInterest pw (- P) r ''compound_annually'' f)) P ''compound_annually'' = Some R
            \<and> \<bar>R - r\<bar> \<le> 44 / 1000"
proof -
  define I where "I = Math_round (fsub (fmul P (pw (fadd 1 (fdiv r 100)) (fdiv 1 12))) P)"
  have P0: "P \<noteq> 0" "\<bar>P\<bar> = P" and r0: "r \<noteq> 0" using P r by simp_all
  have ci: "calculateInterest pw (- P) r ''compound_annually'' f = I"
    using P0 r0 by (simp add: calculateInterest_def I_def)
  note fw = forward_annually[OF pw P r, folded I_def]
  have I0: "real_of_int I \<noteq> 0" "\<bar>real_of_int I\<bar> = of_int I" using fw(2) by simp_all
  have "\<bar>round2 (fsub (pw (fadd 1 (fdiv (of_int I) P)) 12) 1) - r\<bar> \<le> 44 / 1000"
    by (rule inverse_annually[OF pw P r fw(1)])
  then show ?thesis
    unfolding ci using I0 P0 by (simp add: calculateAPRFromInterest_def)
qed

lemma pow_accurate_rounded: "pow_accurate pow_rounded"
  unfolding pow_accurate_def pow_rounded_def
proof (intro allI impI)
  fix b e :: real
  assume "1 \<le> b" "b \<le> 4" "0 \<le> e" "e \<le> 30"
  then have x: "1 \<le> b powr e" by (intro ge_one_powr_ge_zero) auto
  have "\<bar>fl (b powr e) - b powr e\<bar> \<le> b powr e / 9000000000000000"
    by (rule fl_normal_error[OF x])
  also have "\<dots> \<le> b powr e / 2 ^ 40" by (intro divide_left_mono) auto
  finally show "\<bar>fl (b powr e) - b powr e\<bar> \<le> b powr e / 2 ^ 40" .
qed

lemma round_trip_all:
  assumes pw: "pow_accurate pw" and P: "30000 \<le> P" "P \<le> 10 ^ 15" and r: "1 / 10 \<le> r" "r \<le> 100"
    and s: "s = ''simple'' \<or> s = ''compound_monthly'' \<or> s = ''compound_daily'' \<or> s = ''compound_annually''"
  shows "\<exists>R. calculateAPRFromInterest pw (of_int (calculateInterest pw (- P) r s f)) P s = Some R
            \<and> \<bar>R - r\<bar> \<le> 44 / 1000"
proof -
  consider (a) "s = ''simple''" | (b) "s = ''compound_monthly''"
    | (c) "s = ''compound_daily''" | (d) "s = ''compound_annually''" using s by blast
  then show ?thesis
  proof cases
    case a
    obtain R where "calculateAPRFromInterest pw (of_int (calculateInterest pw (- P) r ''simple'' f)) P ''simple'' = Some R"
      "\<bar>R - r\<bar> \<le> 26 / 1000"
      using round_trip_simple[OF P r] by blast
    then show ?thesis unfolding a by (intro exI[of _ R]) simp
  next
    case b
    obtain R where "calculateAPRFromInterest pw (of_int (calculateInterest pw (- P) r ''compound_monthly'' f)) P ''compound_monthly'' = Some R"
      "\<bar>R - r\<bar> \<le> 26 / 1000"
      using round_trip_monthly[OF P r] by blast
    then show ?thesis unfolding b by (intro exI[of _ R]) simp
  next
    case c
    obtain R where "calculateAPRFromInterest pw (of_int (calculateInterest pw (- P) r ''compound_daily'' f)) P ''compound_daily'' = Some R"
      "\<bar>R - r\<bar> \<le> 26 / 1000"
      using round_trip_daily[OF pw P(1) r] by blast
    then show ?thesis unfolding c by (intro exI[of _ R]) simp
  next
    case d
    show ?thesis unfolding d by (rule round_trip_annually[OF pw P(1) r])
  qed
qed

text \<open>
  C2 (amended). For a principal \<open>P\<close> between 30000 cents and \<open>10\<^sup>1\<^sup>5\<close> cents, an APR \<open>r\<close> between
  \<open>0.1\<close> and \<open>100\<close> percent and each of the four recognised schemes, the round trip
  \<open>calculateAPRFromInterest (calculateInterest (- P) r s f) P s\<close> is a number, not null, and lies
  within \<open>0.05\<close> of \<open>r\<close>, that is within one decimal place. The arithmetic is that of IEEE
  doubles, and \<^verbatim>\<open>Math.pow\<close> is any function with a relative error of at most \<open>2\<^sup>-\<^sup>4\<^sup>0\<close>.
\<close>

theorem calculateAPRFromInterest_round_trip:
  assumes "pow_accurate pw" "30000 \<le> P" "P \<le> 10 ^ 15" "1 / 10 \<le> r" "r \<le> 100"
    and "s = ''simple'' \<or> s = ''compound_monthly'' \<or> s = ''compound_daily'' \<or> s = ''compound_annually''"
  shows "\<exists>R. calculateAPRFromInterest pw (of_int (calculateInterest pw (- P) r s f)) P s = Some R
            \<and> \<bar>R - r\<bar> < 1 / 20"
proof -
  obtain R where
    R: "calculateAPRFromInterest pw (of_int (calculateInterest pw (- P) r s f)) P s = Some R"
       "\<bar>R - r\<bar> \<le> 44 / 1000"
    using round_trip_all[OF assms] by blast
  have "\<bar>R - r\<bar> < 1 / 20" using R(2) by linarith
  then show ?thesis using R(1) by blast
qed

text \<open>
  The theorem at a principal of 2500 dollars and 18 percent, compounded daily, with the power
  rounded to the nearest double.
\<close>

theorem calculateAPRFromInterest_round_trip_witness:
  "\<exists>R. calculateAPRFromInterest pow_rounded
          (of_int (calculateInterest pow_rounded (- 250000) 18 ''compound_daily'' ''monthly'')) 250000
          ''compound_daily'' = Some R
       \<and> \<bar>R - 18\<bar> < 1 / 20"
  using calculateAPRFromInterest_round_trip[OF pow_accurate_rounded, of 250000 18 "''compound_daily''" "''monthly''"]
  by simp

text \<open>
  C2 as stated, for every principal \<open>P > 0\<close>, fails: on a principal of 100 cents at 18 percent
  the monthly interest \<open>1.5\<close> is rounded to 2 cents, and the inverse returns 24 percent.
\<close>

theorem calculateAPRFromInterest_round_trip_counterexample:
  "calculateAPRFromInterest pow_rounded
     (of_int (calculateInterest pow_rounded (- 100) 18 ''simple'' ''monthly'')) 100 ''simple'' = Some 24"
  by code_simp

section \<open>Zero interest and the inverse's rounding\<close>
















section \<open>The posting date calculator\<close>

lemma of_char_digit_char: "k < 10 \<Longrightarrow> of_char (digit_char k) = (48 + k :: nat)"
  by (simp add: digit_char_def)

lemma digit_val_digit_char [simp]: "k < 10 \<Longrightarrow> digit_val (digit_char k) = k"
  by (simp add: digit_val_def of_char_digit_char)

lemma is_digit_digit_char [simp]: "k < 10 \<Longrightarrow> is_digit (digit_char k)"
  by (simp add: is_digit_def less_eq_char_def of_char_digit_char)

lemma digit_char_not_sign [simp]:
  "k < 10 \<Longrightarrow> digit_char k \<noteq> CHR ''-''" "k < 10 \<Longrightarrow> digit_char k \<noteq> CHR ''+''"
  by (auto simp: digit_char_def dest!: arg_cong[where f = "of_char :: char \<Rightarrow> nat"])

lemma chr0: "CHR ''0'' = digit_char 0"
  unfolding digit_char_def by code_simp

lemma digits_2: "n < 100 \<Longrightarrow> padStart 2 CHR ''0'' (digits n) = [digit_char (n div 10), digit_char (n mod 10)]"
proof (cases "n < 10")
  case True
  then show ?thesis by (subst digits.simps) (simp add: padStart_def chr0)
next
  case False
  assume "n < 100"
  then have "n div 10 < 10" by simp
  then show ?thesis using False
    by (subst digits.simps, subst digits.simps) (simp add: padStart_def)
qed

lemma digits_4:
  assumes "1000 \<le> n" "n \<le> 9999"
  shows "digits n = [digit_char (n div 1000), digit_char (n div 100 mod 10),
                     digit_char (n div 10 mod 10), digit_char (n mod 10)]"
proof -
  have a: "\<not> n < 10" "\<not> n div 10 < 10" "\<not> n div 10 div 10 < 10" "n div 10 div 10 div 10 < 10"
    using assms by linarith+
  have b1: "n div 10 div 10 = n div 100"
    using div_mult2_eq[of n 10 10] by simp
  have b2: "n div 100 div 10 = n div 1000"
    using div_mult2_eq[of n 100 10] by simp
  note b = b1 b2
  show ?thesis
    apply (subst digits.simps, simp only: a if_False)
    apply (subst digits.simps, simp only: a if_False)
    apply (subst digits.simps, simp only: a if_False)
    apply (subst digits.simps, simp only: a if_True)
    apply (simp only: b)
    apply simp
    done
qed

lemma digits_val_2: "a < 10 \<Longrightarrow> b < 10 \<Longrightarrow> digits_val [digit_char a, digit_char b] = 10 * a + b"
  by (simp add: digits_val_def)

lemma digits_val_4:
  "a < 10 \<Longrightarrow> b < 10 \<Longrightarrow> c < 10 \<Longrightarrow> d < 10 \<Longrightarrow>
   digits_val [digit_char a, digit_char b, digit_char c, digit_char d] = 1000 * a + 100 * b + 10 * c + d"
  by (simp add: digits_val_def)

lemma decompose_4:
  fixes n :: nat
  shows "1000 * (n div 1000) + 100 * (n div 100 mod 10) + 10 * (n div 10 mod 10) + n mod 10 = n"
proof -
  have a: "10 * (n div 10) + n mod 10 = n" by simp
  have b: "10 * (n div 10 div 10) + n div 10 mod 10 = n div 10" by simp
  have c: "10 * (n div 100 div 10) + n div 100 mod 10 = n div 100" by simp
  have d: "n div 10 div 10 = n div 100" using div_mult2_eq[of n 10 10] by simp
  have e: "n div 100 div 10 = n div 1000" using div_mult2_eq[of n 100 10] by simp
  show ?thesis using a b c d e by linarith
qed

lemma decompose_2: "10 * ((n::nat) div 10) + n mod 10 = n"
  by simp

lemma format_month_explicit:
  assumes "1000 \<le> y" "y \<le> 9999" "1 \<le> m" "m \<le> 99"
  shows "format_month y m =
    [digit_char (nat y div 1000), digit_char (nat y div 100 mod 10),
     digit_char (nat y div 10 mod 10), digit_char (nat y mod 10), CHR ''-'',
     digit_char (nat m div 10), digit_char (nat m mod 10)]"
proof -
  have "digits (nat y) = [digit_char (nat y div 1000), digit_char (nat y div 100 mod 10),
     digit_char (nat y div 10 mod 10), digit_char (nat y mod 10)]"
    using assms by (intro digits_4) auto
  moreover have "padStart 2 CHR ''0'' (digits (nat m)) = [digit_char (nat m div 10), digit_char (nat m mod 10)]"
    using assms by (intro digits_2) auto
  ultimately show ?thesis using assms
    by (simp add: format_month_def String_int_def padStart_def)
qed

lemma pad2_explicit:
  assumes "0 \<le> d" "d \<le> 99"
  shows "padStart 2 CHR ''0'' (String_int d) = [digit_char (nat d div 10), digit_char (nat d mod 10)]"
  using assms digits_2[of "nat d"] by (simp add: String_int_def)

lemma year_digits_val:
  assumes "0 \<le> y" "y \<le> 9999"
  shows "int (digits_val [digit_char (nat y div 1000), digit_char (nat y div 100 mod 10),
     digit_char (nat y div 10 mod 10), digit_char (nat y mod 10)]) = y"
proof -
  have "nat y div 1000 < 10" using assms by simp
  then have "digits_val [digit_char (nat y div 1000), digit_char (nat y div 100 mod 10),
     digit_char (nat y div 10 mod 10), digit_char (nat y mod 10)]
     = 1000 * (nat y div 1000) + 100 * (nat y div 100 mod 10) + 10 * (nat y div 10 mod 10) + nat y mod 10"
    by (intro digits_val_4) auto
  then show ?thesis using decompose_4[of "nat y"] assms by simp
qed

lemma two_digits_val:
  assumes "0 \<le> d" "d \<le> 99"
  shows "int (digits_val [digit_char (nat d div 10), digit_char (nat d mod 10)]) = d"
proof -
  have "nat d div 10 < 10" using assms by simp
  then have "digits_val [digit_char (nat d div 10), digit_char (nat d mod 10)]
     = 10 * (nat d div 10) + nat d mod 10"
    by (intro digits_val_2) auto
  then show ?thesis using assms by simp
qed

lemma parseInt_digits4:
  assumes "a < 10" "b < 10" "c < 10" "d < 10"
  shows "parseInt [digit_char a, digit_char b, digit_char c, digit_char d]
     = Some (int (digits_val [digit_char a, digit_char b, digit_char c, digit_char d]))"
  using assms by (simp add: parseInt_def)

lemma parseInt_digits2:
  assumes "a < 10" "b < 10"
  shows "parseInt [digit_char a, digit_char b] = Some (int (digits_val [digit_char a, digit_char b]))"
  using assms by (simp add: parseInt_def)

lemma all_digits_4:
  "a < 10 \<Longrightarrow> b < 10 \<Longrightarrow> c < 10 \<Longrightarrow> d < 10 \<Longrightarrow>
   all_digits [digit_char a, digit_char b, digit_char c, digit_char d]"
  by (simp add: all_digits_def)

lemma all_digits_2:
  "a < 10 \<Longrightarrow> b < 10 \<Longrightarrow> all_digits [digit_char a, digit_char b]"
  by (simp add: all_digits_def)

lemma parse_month_format_month:
  assumes "1000 \<le> y" "y \<le> 9999" "1 \<le> m" "m \<le> 12"
  shows "parse_month (format_month y m) = Some (y, m)"
proof -
  have y: "nat y div 1000 < 10" using assms by simp
  have m: "nat m div 10 < 10" using assms by simp
  have my: "0 \<le> y" "0 \<le> m" "m \<le> 99" using assms by auto
  show ?thesis
    using assms y m all_digits_4[of "nat y div 1000" "nat y div 100 mod 10" "nat y div 10 mod 10" "nat y mod 10"]
      all_digits_2[of "nat m div 10" "nat m mod 10"]
    by (simp add: format_month_explicit parse_month_def year_digits_val[OF my(1) assms(2)] two_digits_val[OF my(2,3)])
qed

lemma parse_day_format_day:
  assumes "1000 \<le> y" "y \<le> 9999" "1 \<le> m" "m \<le> 12" "1 \<le> d" "d \<le> days_in_month y m"
  shows "parse_day (format_day y m d) = Some (y, m, d)"
proof -
  have d99: "0 \<le> d" "d \<le> 99" using assms by (auto simp: days_in_month_def split: if_splits)
  have d: "nat d div 10 < 10" using d99 by simp
  have l: "length (format_month y m) = 7" using assms by (simp add: format_month_explicit)
  have pd: "padStart 2 CHR ''0'' (String_int d) = [digit_char (nat d div 10), digit_char (nat d mod 10)]"
    by (rule pad2_explicit[OF d99])
  show ?thesis
    using assms d l all_digits_2[of "nat d div 10" "nat d mod 10"]
    by (simp add: parse_day_def format_day_def pd parse_month_format_month two_digits_val[OF d99] nth_append)
qed

lemma month_of_parse_day: "parse_day s = Some (y, m, d) \<Longrightarrow> month_of s = Some (y, m)"
  by (simp add: month_of_def)

lemma parse_day_month_range:
  "parse_day s = Some (y, m, d) \<Longrightarrow> 1 \<le> m \<and> m \<le> 12"
  by (auto simp: parse_day_def parse_month_def Let_def split: if_splits option.splits)

lemma addMonths_one:
  assumes "parse_day s = Some (y, m, d)"
  shows "monthUtils_addMonths s 1 = Some (format_month (fst (next_month (y, m))) (snd (next_month (y, m))))"
proof -
  have r: "1 \<le> m" "m \<le> 12" using parse_day_month_range[OF assms] by auto
  have "(y * 12 + (m - 1) + 1) div 12 = (if m = 12 then y + 1 else y)"
    using r by auto
  moreover have "(y * 12 + (m - 1) + 1) mod 12 + 1 = (if m = 12 then 1 else m + 1)"
    using r by auto
  ultimately show ?thesis
    by (simp add: monthUtils_addMonths_def month_of_parse_day[OF assms] next_month_def Let_def)
qed

lemma month_of_format_month:
  assumes "1000 \<le> y" "y \<le> 9999" "1 \<le> m" "m \<le> 12"
  shows "month_of (format_month y m) = Some (y, m)"
proof -
  have "length (format_month y m) = 7" using assms by (simp add: format_month_explicit)
  then have "parse_day (format_month y m) = None" by (simp add: parse_day_def)
  then show ?thesis using assms by (simp add: month_of_def parse_month_format_month)
qed

lemma posting_string:
  assumes "1000 \<le> y" "y \<le> 9999" "1 \<le> m" "m \<le> 12"
  shows "(let nextMonth = format_month y m;
              year = parseInt (slice nextMonth 0 4);
              month = parseInt (slice nextMonth 5 7);
              lastDay = Date_day0 year month;
              day = Math_min (Some pd) lastDay
          in String_num year @ ''-'' @ padStart 2 CHR ''0'' (String_num month)
               @ ''-'' @ padStart 2 CHR ''0'' (String_num day))
         = format_day y m (min pd (days_in_month y m))"
proof -
  have y: "nat y div 1000 < 10" "0 \<le> y" using assms by auto
  have m: "nat m div 10 < 10" "0 \<le> m" "m \<le> 99" using assms by auto
  have py: "parseInt (slice (format_month y m) 0 4) = Some y"
    using assms y parseInt_digits4[of "nat y div 1000" "nat y div 100 mod 10" "nat y div 10 mod 10" "nat y mod 10"]
    by (simp add: format_month_explicit slice_def year_digits_val[OF y(2) assms(2)])
  have pm: "parseInt (slice (format_month y m) 5 7) = Some m"
    using assms m parseInt_digits2[of "nat m div 10" "nat m mod 10"]
    by (simp add: format_month_explicit slice_def two_digits_val[OF m(2,3)])
  have dd: "Date_day0 (Some y) (Some m) = Some (days_in_month y m)"
    using assms by (simp add: Date_day0_def)
  have sy: "String_int y = padStart 4 CHR ''0'' (String_int y)"
    using assms digits_4[of "nat y"] by (simp add: String_int_def padStart_def)
  show ?thesis
    unfolding Let_def py pm dd
    by (simp add: Math_min_def String_num_def format_day_def format_month_def sy[symmetric])
qed

text \<open>
  C4, as amended. Let \<open>fromDate\<close> be a calendar day \<^verbatim>\<open>YYYY-MM-DD\<close> of a year from 1000 on, in
  month \<open>m\<close> of year \<open>y\<close>, and \<open>(y', m')\<close> the calendar month after \<open>(y, m)\<close>, not later than
  December 9999. Without a posting day \<open>getNextInterestDate\<close> returns the last day of month
  \<open>m'\<close> of year \<open>y'\<close> (29 February in a leap year); with a posting day from 1 to 31 it
  returns day \<open>min postingDay (days_in_month y' m')\<close> of that month. Both results are
  calendar days of the target month: they parse back to \<open>(y', m', day)\<close>. The three
  examples of the spec are part of the statement.
\<close>

theorem getNextInterestDate_next_month:
  assumes "parse_day fromDate = Some (y, m, d)" and "1000 \<le> y"
    and "(y', m') = next_month (y, m)" and "y' \<le> 9999"
  shows "getNextInterestDate today None (Some fromDate)
           = Some (format_day y' m' (days_in_month y' m'))
    \<and> parse_day (format_day y' m' (days_in_month y' m')) = Some (y', m', days_in_month y' m')
    \<and> (1 \<le> postingDay \<and> postingDay \<le> 31 \<longrightarrow>
         getNextInterestDate today (Some postingDay) (Some fromDate)
           = Some (format_day y' m' (min postingDay (days_in_month y' m')))
         \<and> parse_day (format_day y' m' (min postingDay (days_in_month y' m')))
           = Some (y', m', min postingDay (days_in_month y' m')))
    \<and> getNextInterestDate today (Some 15) (Some ''2024-01-15'') = Some ''2024-02-15''
    \<and> getNextInterestDate today None (Some ''2024-01-15'') = Some ''2024-02-29''
    \<and> getNextInterestDate today (Some 31) (Some ''2024-01-31'') = Some ''2024-02-29''"
proof -
  have r: "1 \<le> m" "m \<le> 12" using parse_day_month_range[OF assms(1)] by auto
  have ym: "1000 \<le> y'" "y' \<le> 9999" "1 \<le> m'" "m' \<le> 12"
    using assms(2-4) r by (auto simp: next_month_def split: if_splits)
  have ne: "fromDate \<noteq> []" using assms(1) by (auto simp: parse_day_def)
  have am: "monthUtils_addMonths fromDate 1 = Some (format_month y' m')"
    using addMonths_one[OF assms(1)] assms(3)[symmetric] by simp
  have dim: "1 \<le> days_in_month y' m'" "days_in_month y' m' \<le> 31"
    by (auto simp: days_in_month_def)
  have A: "getNextInterestDate today None (Some fromDate)
           = Some (format_day y' m' (days_in_month y' m'))"
    using ne am ym
    by (simp add: getNextInterestDate_def monthUtils_lastDayOfMonth_def month_of_format_month)
  have B: "parse_day (format_day y' m' (days_in_month y' m')) = Some (y', m', days_in_month y' m')"
    using ym dim by (intro parse_day_format_day) auto
  have E1: "getNextInterestDate today (Some 15) (Some ''2024-01-15'') = Some ''2024-02-15''"
    by code_simp
  have E2: "getNextInterestDate today None (Some ''2024-01-15'') = Some ''2024-02-29''"
    by code_simp
  have E3: "getNextInterestDate today (Some 31) (Some ''2024-01-31'') = Some ''2024-02-29''"
    by code_simp
  have C: "getNextInterestDate today (Some postingDay) (Some fromDate)
           = Some (format_day y' m' (min postingDay (days_in_month y' m')))
         \<and> parse_day (format_day y' m' (min postingDay (days_in_month y' m')))
           = Some (y', m', min postingDay (days_in_month y' m'))"
    if pd: "1 \<le> postingDay" "postingDay \<le> 31"
  proof -
    have "getNextInterestDate today (Some postingDay) (Some fromDate)
           = Some (format_day y' m' (min postingDay (days_in_month y' m')))"
      using ne am posting_string[OF ym, of postingDay]
      by (simp add: getNextInterestDate_def Let_def)
    moreover have "parse_day (format_day y' m' (min postingDay (days_in_month y' m')))
           = Some (y', m', min postingDay (days_in_month y' m'))"
      using ym dim pd by (intro parse_day_format_day) auto
    ultimately show ?thesis by simp
  qed
  show ?thesis using A B C E1 E2 E3 by blast
qed

text \<open>
  The hypotheses hold for 30 January 2025: the month after is February 2025, which has 28
  days, so posting day 30 is clamped to the 28th.
\<close>

theorem getNextInterestDate_next_month_witness:
  "parse_day ''2025-01-30'' = Some (2025, 1, 30)
   \<and> (2025, 2) = next_month (2025, 1)
   \<and> days_in_month 2025 2 = 28
   \<and> getNextInterestDate ''2024-06-10'' None (Some ''2025-01-30'') = Some ''2025-02-28''
   \<and> getNextInterestDate ''2024-06-10'' (Some 30) (Some ''2025-01-30'') = Some ''2025-02-28''
   \<and> parse_day ''2025-02-28'' = Some (2025, 2, 28)"
proof -
  have p: "parse_day ''2025-01-30'' = Some (2025, 1, 30)" by code_simp
  have n: "(2025, 2) = next_month (2025, 1)" by (simp add: next_month_def)
  have dm: "days_in_month 2025 2 = 28" by (simp add: days_in_month_def leap_year_def)
  have f: "format_day 2025 2 28 = ''2025-02-28''" by code_simp
  show ?thesis
    using getNextInterestDate_next_month[OF p _ n, of "''2024-06-10''" 30] p n dm f
    by simp
qed

lemma format_month_10000: "format_month 10000 1 = ''10000-01''"
proof -
  have d1: "digit_char 1 = CHR ''1''"
    unfolding digit_char_def by code_simp
  have d: "digit_char 0 = CHR ''0''" "digit_char (Suc 0) = CHR ''1''"
    using d1 chr0 by simp_all
  have "digits 1000 = ''1000''" using digits_4[of 1000] by (simp add: d)
  then have "digits 10000 = ''10000''" by (subst digits.simps) (simp add: d)
  moreover have "padStart 2 CHR ''0'' (digits 1) = ''01''" using digits_2[of 1] by (simp add: d)
  ultimately show ?thesis by (simp add: format_month_def String_int_def padStart_def)
qed

lemma addMonths_december_9999: "monthUtils_addMonths ''9999-12-15'' 1 = Some ''10000-01''"
proof -
  have "month_of ''9999-12-15'' = Some (9999, 12)" by code_simp
  then show ?thesis by (simp add: monthUtils_addMonths_def format_month_10000)
qed

lemma posting_day_december_9999:
  "getNextInterestDate ''2024-01-15'' (Some 15) (Some ''9999-12-15'') = Some ''1000-00-15''"
proof -
  have y: "parseInt (slice ''10000-01'' 0 4) = Some 1000" by code_simp
  have m: "parseInt (slice ''10000-01'' 5 7) = Some 0" by code_simp
  have d: "Date_day0 (Some 1000) (Some 0) = Some 31" by code_simp
  have s: "String_num (Some 1000) @ ''-'' @ padStart 2 CHR ''0'' (String_num (Some 0))
             @ ''-'' @ padStart 2 CHR ''0'' (String_num (Math_min (Some 15) (Some 31)))
           = ''1000-00-15''" by code_simp
  show ?thesis
    unfolding getNextInterestDate_def Let_def
    using s by (simp add: addMonths_december_9999 y m d)
qed

text \<open>
  C4 as the spec states it, for every \<open>fromDate\<close>, fails. From 15 December 9999 the month
  utilities answer \<^verbatim>\<open>10000-01\<close>, of which the calculator reads the year 1000 and the month 0:
  the result \<^verbatim>\<open>1000-00-15\<close> is no day of January 10000. From 10 March 500 the result with a
  posting day is \<^verbatim>\<open>500-04-15\<close>, with the year as \<^verbatim>\<open>parseInt\<close> left it, which is not the day
  \<^verbatim>\<open>0500-04-15\<close> and not a date \<^verbatim>\<open>YYYY-MM-DD\<close>; without a posting day it is \<^verbatim>\<open>0500-04-30\<close>.
\<close>

theorem getNextInterestDate_next_month_counterexample:
  "parse_day ''9999-12-15'' = Some (9999, 12, 15)
   \<and> getNextInterestDate ''2024-01-15'' (Some 15) (Some ''9999-12-15'') = Some ''1000-00-15''
   \<and> parse_day ''1000-00-15'' = None
   \<and> parse_day ''0500-03-10'' = Some (500, 3, 10)
   \<and> getNextInterestDate ''2024-01-15'' (Some 15) (Some ''0500-03-10'') = Some ''500-04-15''
   \<and> format_day 500 4 (min 15 (days_in_month 500 4)) = ''0500-04-15''
   \<and> parse_day ''500-04-15'' = None
   \<and> getNextInterestDate ''2024-01-15'' None (Some ''0500-03-10'') = Some ''0500-04-30''"
proof -
  have a: "parse_day ''9999-12-15'' = Some (9999, 12, 15)" by code_simp
  have b: "parse_day ''1000-00-15'' = None" by code_simp
  have c: "parse_day ''0500-03-10'' = Some (500, 3, 10)" by code_simp
  have d: "getNextInterestDate ''2024-01-15'' (Some 15) (Some ''0500-03-10'') = Some ''500-04-15''"
    by code_simp
  have e: "format_day 500 4 (min 15 (days_in_month 500 4)) = ''0500-04-15''" by code_simp
  have f: "parse_day ''500-04-15'' = None" by code_simp
  have g: "getNextInterestDate ''2024-01-15'' None (Some ''0500-03-10'') = Some ''0500-04-30''"
    by code_simp
  show ?thesis using a b c d e f g posting_day_december_9999 by simp
qed
section \<open>The interest poster\<close>

text \<open>
  C5. \<open>postInterestTransaction\<close> fails exactly when the interest computed from the stored
  balance (the sum of the account's non-tombstoned amounts) is 0, the failure is "nothing to
  post", and the ledger it leaves is the ledger it found; a zero balance is one such case.
\<close>

theorem postInterestTransaction_nothing_to_post:
  "(isl (fst (postInterestTransaction h p date st)) \<longleftrightarrow> computed_interest h p st = 0)
   \<and> (computed_interest h p st = 0 \<longrightarrow>
        postInterestTransaction h p date st = (Inl NothingToPost, st))
   \<and> (or_zero (account_balance_query st (isp_accountId p)) = 0 \<longrightarrow>
        postInterestTransaction h p date st = (Inl NothingToPost, st))"
proof -
  have z: "calculateInterest pw 0 a s f = 0" for pw a s f
    by (simp add: calculateInterest_def)
  show ?thesis
    by (auto simp: postInterestTransaction_def computed_interest_def Let_def z
        split: prod.splits option.splits)
qed

text \<open>The empty ledger has balance 0 for every account.\<close>

theorem postInterestTransaction_nothing_to_post_witness:
  "or_zero (account_balance_query empty_ledger (isp_accountId demo_params)) = 0
   \<and> computed_interest demo_host demo_params empty_ledger = 0
   \<and> postInterestTransaction demo_host demo_params None empty_ledger = (Inl NothingToPost, empty_ledger)
   \<and> isl (fst (postInterestTransaction demo_host demo_params None empty_ledger))"
proof -
  have b: "or_zero (account_balance_query empty_ledger (isp_accountId demo_params)) = 0"
    by (simp add: or_zero_def account_balance_query_def empty_ledger_def sql_sum_def)
  show ?thesis
    using postInterestTransaction_nothing_to_post[of demo_host demo_params None empty_ledger] b
    by (simp add: computed_interest_def calculateInterest_def)
qed

section \<open>The interest schedule manager\<close>

lemma find_schedules_cong:
  "schedules st' = schedules st \<Longrightarrow> rules st' = rules st \<Longrightarrow>
   rule_conditions st' = rule_conditions st \<Longrightarrow> find_schedules st' a = find_schedules st a"
  by (simp add: find_schedules_def)

lemma governing_cong:
  "schedules st' = schedules st \<Longrightarrow> rules st' = rules st \<Longrightarrow>
   rule_conditions st' = rule_conditions st \<Longrightarrow> governing_schedules st' a = governing_schedules st a"
  by (simp add: governing_schedules_def)

lemma db_first_map: "db_first (map f xs) = map_option f (db_first xs)"
  by (cases xs) (simp_all add: db_first_def)

lemma find_action_update [simp]:
  "find_action (update_action_value i v st) rule field = find_action st rule field"
proof -
  have *: "map act_id (filter (\<lambda>a. act_rule a = rule \<and> act_field a = field)
          (map (\<lambda>a. if act_id a = i then a\<lparr>act_value := v\<rparr> else a) xs))
        = map act_id (filter (\<lambda>a. act_rule a = rule \<and> act_field a = field) xs)"
    for xs :: "action_row list"
    by (induction xs) auto
  show ?thesis by (simp add: find_action_def update_action_value_def *)
qed

lemma update_actions_twice:
  "(case find_action st rid ''category'' of
      Some i \<Rightarrow> update_action_value i (Text (isp_interestCategoryId p))
        (case find_action st rid ''debt_interest_config'' of
           Some i \<Rightarrow> update_action_value i
             (InterestConfig (isp_apr p) (isp_interestScheme p) (isp_compoundingFrequency p)) st
         | None \<Rightarrow> st)
    | None \<Rightarrow>
        (case find_action st rid ''debt_interest_config'' of
           Some i \<Rightarrow> update_action_value i
             (InterestConfig (isp_apr p) (isp_interestScheme p) (isp_compoundingFrequency p)) st
         | None \<Rightarrow> st))
   = st\<lparr>rule_actions := updated_actions (find_action st rid ''debt_interest_config'')
        (find_action st rid ''category'') p (rule_actions st)\<rparr>"
  by (cases "find_action st rid ''category''"; cases "find_action st rid ''debt_interest_config''")
     (auto simp: update_action_value_def updated_actions_def)

lemma find_action_update_case [simp]:
  "find_action (case c of Some i \<Rightarrow> update_action_value i v st | None \<Rightarrow> st) rule field
   = find_action st rule field"
  by (cases c) simp_all

lemma updateInterestSchedule_eq:
  "updateInterestSchedule h sid rid p st =
     (let st2 = st\<lparr>rule_actions := updated_actions (find_action st rid ''debt_interest_config'')
                  (find_action st rid ''category'') p (rule_actions st)\<rparr>
      in case getNextInterestDate (currentDay h) (isp_interestPostingDay p) None of
           None \<Rightarrow> (Inl MonthUtilsFailed, st2)
         | Some d \<Rightarrow> (Inr (), st2\<lparr>schedules_next_date :=
              updated_next_dates sid (toDateRepr (monthUtils_dayFromDate h d)) (Date_now h) (schedules_next_date st)\<rparr>))"
  unfolding updateInterestSchedule_def Let_def find_action_update_case update_actions_twice
  by (simp add: update_next_date_def updated_next_dates_def split: option.splits)

lemma in_find_schedules:
  "x \<in> set (find_schedules st a) \<longleftrightarrow>
     (\<exists>s r rc. s \<in> set (schedules st) \<and> r \<in> set (rules st) \<and> rc \<in> set (rule_conditions st)
        \<and> schedule_match a (s, r, rc) \<and> x = (sched_id s, sched_rule s))"
  unfolding find_schedules_def by (force simp: image_iff)

lemma in_governing:
  "s \<in> set (governing_schedules st a) \<longleftrightarrow>
     s \<in> set (schedules st) \<and>
     (\<exists>r rc. r \<in> set (rules st) \<and> rc \<in> set (rule_conditions st) \<and> schedule_match a (s, r, rc))"
  by (auto simp: governing_schedules_def list_ex_iff)

lemma governing_empty_iff: "governing_schedules st a = [] \<longleftrightarrow> find_schedules st a = []"
proof -
  have "governing_schedules st a = [] \<longleftrightarrow> set (governing_schedules st a) = {}" by simp
  also have "\<dots> \<longleftrightarrow> set (find_schedules st a) = {}"
    unfolding set_eq_iff in_governing in_find_schedules by simp blast
  also have "\<dots> \<longleftrightarrow> find_schedules st a = []" by simp
  finally show ?thesis .
qed

lemma db_first_None [simp]: "db_first xs = None \<longleftrightarrow> xs = []"
  by (cases xs) (simp_all add: db_first_def)

lemma db_first_singleton_set: "set xs = {x} \<Longrightarrow> db_first xs = Some x"
  by (cases xs) (auto simp: db_first_def)

text \<open>the update path of \<open>setupInterestSchedule\<close>\<close>

lemma setup_existing_eq:
  assumes "db_first (find_schedules st (isp_accountId p)) = Some (sid, rid)"
  shows "setupInterestSchedule h p st =
     (let st2 = st\<lparr>rule_actions := updated_actions (find_action st rid ''debt_interest_config'')
                  (find_action st rid ''category'') p (rule_actions st)\<rparr>
      in case getNextInterestDate (currentDay h) (isp_interestPostingDay p) None of
           None \<Rightarrow> (Inl MonthUtilsFailed, st2)
         | Some d \<Rightarrow> (Inr sid, st2\<lparr>schedules_next_date :=
              updated_next_dates sid (toDateRepr (monthUtils_dayFromDate h d)) (Date_now h) (schedules_next_date st)\<rparr>))"
  using assms
  by (simp add: setupInterestSchedule_def updateInterestSchedule_eq Let_def split: option.splits)

text \<open>the create path\<close>

lemma setup_create:
  assumes "find_schedules st (isp_accountId p) = []"
    and "setupInterestSchedule h p st = (Inr sid, st')"
  shows "sid = uuid_seq h (uuid_count st)"
    and "\<exists>nm. schedules st' = schedules st @
           [\<lparr>sched_id = sid, sched_rule = uuid_seq h (Suc (uuid_count st)), sched_active = 1,
             sched_completed = 0, sched_posts_transaction = 1, sched_name = nm\<rparr>]"
    and "rules st' = rules st @ [\<lparr>rule_id = uuid_seq h (Suc (uuid_count st)), rule_stage = None\<rparr>]"
    and "\<exists>c. rule_conditions st' = rule_conditions st @
           [\<lparr>cond_id = c, cond_rule = uuid_seq h (Suc (uuid_count st)), cond_field = ''acct'',
             cond_op = ''is'', cond_value = isp_accountId p\<rparr>]"
  using assms
  by (auto simp: setupInterestSchedule_def Let_def uuidv4_def insertPayee_def insert_rule_def
      insert_condition_def insert_action_def insert_schedule_def insertWithUUID_next_date_def
      db_first_def
      split: option.splits prod.splits list.splits)

lemma updated_actions_props:
  "length (updated_actions cfg cat p acts) = length acts"
  "i < length acts \<Longrightarrow>
     updated_actions cfg cat p acts ! i = acts ! i
     \<or> (updated_actions cfg cat p acts ! i = (acts ! i)\<lparr>act_value := act_value (updated_actions cfg cat p acts ! i)\<rparr>
        \<and> (cfg = Some (act_id (acts ! i)) \<or> cat = Some (act_id (acts ! i))))"
  "cfg = None \<Longrightarrow> cat = None \<Longrightarrow> updated_actions cfg cat p acts = acts"
  by (auto simp: updated_actions_def map_idI)

lemma updated_next_dates_props:
  "length (updated_next_dates sid d now rows) = length rows"
  "i < length rows \<Longrightarrow>
     updated_next_dates sid d now rows ! i = rows ! i
     \<or> (nd_schedule_id (rows ! i) = sid
        \<and> nd_id (updated_next_dates sid d now rows ! i) = nd_id (rows ! i)
        \<and> nd_schedule_id (updated_next_dates sid d now rows ! i) = sid)"
  by (auto simp: updated_next_dates_def)

lemma setup_existing_props:
  assumes "db_first (find_schedules st (isp_accountId p)) = Some (sid, rid)"
    and "setupInterestSchedule h p st = (r, st')"
  shows "(r = Inr sid \<or> r = Inl MonthUtilsFailed)
    \<and> (getNextInterestDate (currentDay h) (isp_interestPostingDay p) None \<noteq> None \<longrightarrow> r = Inr sid)
    \<and> accounts st' = accounts st \<and> transactions st' = transactions st
    \<and> payees st' = payees st \<and> categories st' = categories st
    \<and> rules st' = rules st \<and> rule_conditions st' = rule_conditions st
    \<and> schedules st' = schedules st \<and> uuid_count st' = uuid_count st
    \<and> length (rule_actions st') = length (rule_actions st)
    \<and> length (schedules_next_date st') = length (schedules_next_date st)
    \<and> (\<forall>i < length (rule_actions st).
          rule_actions st' ! i = rule_actions st ! i
          \<or> (rule_actions st' ! i = (rule_actions st ! i)\<lparr>act_value := act_value (rule_actions st' ! i)\<rparr>
             \<and> (find_action st rid ''debt_interest_config'' = Some (act_id (rule_actions st ! i))
                \<or> find_action st rid ''category'' = Some (act_id (rule_actions st ! i)))))
    \<and> (\<forall>i < length (schedules_next_date st).
          schedules_next_date st' ! i = schedules_next_date st ! i
          \<or> (nd_schedule_id (schedules_next_date st ! i) = sid
             \<and> nd_id (schedules_next_date st' ! i) = nd_id (schedules_next_date st ! i)
             \<and> nd_schedule_id (schedules_next_date st' ! i) = sid))
    \<and> (find_action st rid ''debt_interest_config'' = None \<and> find_action st rid ''category'' = None
         \<longrightarrow> rule_actions st' = rule_actions st)"
proof (cases "getNextInterestDate (currentDay h) (isp_interestPostingDay p) None")
  case None
  with assms(2) setup_existing_eq[OF assms(1), of h]
  have r: "r = Inl MonthUtilsFailed"
    and st': "st' = st\<lparr>rule_actions := updated_actions (find_action st rid ''debt_interest_config'')
                  (find_action st rid ''category'') p (rule_actions st)\<rparr>"
    by (auto simp: Let_def)
  show ?thesis
    unfolding st' r using None
    by (auto simp: updated_actions_props(1,3) dest: updated_actions_props(2))
next
  case (Some d)
  with assms(2) setup_existing_eq[OF assms(1), of h]
  have r: "r = Inr sid"
    and st': "st' = st\<lparr>rule_actions := updated_actions (find_action st rid ''debt_interest_config'')
                  (find_action st rid ''category'') p (rule_actions st),
                schedules_next_date := updated_next_dates sid (toDateRepr (monthUtils_dayFromDate h d)) (Date_now h)
                  (schedules_next_date st)\<rparr>"
    by (auto simp: Let_def)
  have a: "\<forall>i < length (rule_actions st).
          rule_actions st' ! i = rule_actions st ! i
          \<or> (rule_actions st' ! i = (rule_actions st ! i)\<lparr>act_value := act_value (rule_actions st' ! i)\<rparr>
             \<and> (find_action st rid ''debt_interest_config'' = Some (act_id (rule_actions st ! i))
                \<or> find_action st rid ''category'' = Some (act_id (rule_actions st ! i))))"
    unfolding st' using updated_actions_props(2) by auto
  have n: "\<forall>i < length (schedules_next_date st).
          schedules_next_date st' ! i = schedules_next_date st ! i
          \<or> (nd_schedule_id (schedules_next_date st ! i) = sid
             \<and> nd_id (schedules_next_date st' ! i) = nd_id (schedules_next_date st ! i)
             \<and> nd_schedule_id (schedules_next_date st' ! i) = sid)"
    unfolding st' using updated_next_dates_props(2) by auto
  show ?thesis
    using a n unfolding r
    by (simp add: st' updated_actions_props(1,3) updated_next_dates_props(1))
qed

lemma setup_create_lookup:
  assumes empty: "find_schedules st (isp_accountId p) = []"
    and fresh: "uuid_seq h (Suc (uuid_count st)) \<notin> sched_rule ` set (schedules st)"
    and first: "setupInterestSchedule h p st = (Inr sid, st1)"
  shows "db_first (find_schedules st1 (isp_accountId p)) = Some (sid, uuid_seq h (Suc (uuid_count st)))"
    and "length (governing_schedules st1 (isp_accountId p)) = 1"
proof -
  let ?a = "isp_accountId p"
  let ?rid = "uuid_seq h (Suc (uuid_count st))"
  from setup_create[OF empty first] obtain nm c where
    S: "schedules st1 = schedules st @
           [\<lparr>sched_id = sid, sched_rule = ?rid, sched_active = 1,
             sched_completed = 0, sched_posts_transaction = 1, sched_name = nm\<rparr>]"
    and R: "rules st1 = rules st @ [\<lparr>rule_id = ?rid, rule_stage = None\<rparr>]"
    and C: "rule_conditions st1 = rule_conditions st @
           [\<lparr>cond_id = c, cond_rule = ?rid, cond_field = ''acct'',
             cond_op = ''is'', cond_value = ?a\<rparr>]"
    by blast
  define snew where "snew = \<lparr>sched_id = sid, sched_rule = ?rid, sched_active = 1,
             sched_completed = 0, sched_posts_transaction = 1, sched_name = nm\<rparr>"
  define rnew where "rnew = \<lparr>rule_id = ?rid, rule_stage = None\<rparr>"
  define cnew where "cnew = \<lparr>cond_id = c, cond_rule = ?rid, cond_field = ''acct'',
             cond_op = ''is'', cond_value = ?a\<rparr>"
  have old_old: "\<not> schedule_match ?a (s, r, rc)"
    if "s \<in> set (schedules st)" "r \<in> set (rules st)" "rc \<in> set (rule_conditions st)" for s r rc
  proof
    assume "schedule_match ?a (s, r, rc)"
    then have "(sched_id s, sched_rule s) \<in> set (find_schedules st ?a)"
      unfolding in_find_schedules using that by blast
    then show False using empty by simp
  qed
  have no_old: "\<not> schedule_match ?a (s, r, rc)"
    if h1: "s \<in> set (schedules st)" and h2: "r \<in> set (rules st1)"
      and h3: "rc \<in> set (rule_conditions st1)" for s r rc
  proof -
    have sr: "sched_rule s \<noteq> ?rid" using fresh h1 by (metis imageI)
    consider "r = rnew" | "r \<in> set (rules st)" "rc = cnew" | "r \<in> set (rules st)" "rc \<in> set (rule_conditions st)"
      using h2 h3 by (auto simp: R C rnew_def cnew_def)
    then show ?thesis
    proof cases
      case 1
      then show ?thesis using sr by (auto simp: schedule_match_def rnew_def)
    next
      case 2
      then show ?thesis using sr by (auto simp: schedule_match_def cnew_def)
    next
      case 3
      then show ?thesis using old_old h1 by blast
    qed
  qed
  have new_match: "schedule_match ?a (snew, rnew, cnew)"
    by (simp add: schedule_match_def snew_def rnew_def cnew_def)
  have "set (find_schedules st1 ?a) = {(sid, ?rid)}"
  proof (rule set_eqI)
    fix x
    show "x \<in> set (find_schedules st1 ?a) \<longleftrightarrow> x \<in> {(sid, ?rid)}"
    proof
      assume "x \<in> set (find_schedules st1 ?a)"
      then obtain s r rc where m: "s \<in> set (schedules st1)" "r \<in> set (rules st1)"
        "rc \<in> set (rule_conditions st1)" "schedule_match ?a (s, r, rc)" "x = (sched_id s, sched_rule s)"
        unfolding in_find_schedules by blast
      have "s = snew" using m no_old by (auto simp: S snew_def)
      then show "x \<in> {(sid, ?rid)}" using m(5) by (simp add: snew_def)
    next
      assume "x \<in> {(sid, ?rid)}"
      then have "x = (sched_id snew, sched_rule snew)" by (simp add: snew_def)
      moreover have "snew \<in> set (schedules st1)" "rnew \<in> set (rules st1)"
        "cnew \<in> set (rule_conditions st1)"
        by (simp_all add: S R C snew_def rnew_def cnew_def)
      ultimately show "x \<in> set (find_schedules st1 ?a)"
        unfolding in_find_schedules using new_match by blast
    qed
  qed
  then show "db_first (find_schedules st1 ?a) = Some (sid, ?rid)"
    by (rule db_first_singleton_set)
  have old_none: "filter (\<lambda>s. list_ex (\<lambda>r. list_ex (\<lambda>rc. schedule_match ?a (s, r, rc))
                               (rule_conditions st1)) (rules st1)) (schedules st) = []"
    using no_old by (auto simp: filter_empty_conv list_ex_iff)
  have new_one: "list_ex (\<lambda>r. list_ex (\<lambda>rc. schedule_match ?a (snew, r, rc))
                               (rule_conditions st1)) (rules st1)"
    unfolding list_ex_iff using new_match
    by (auto simp: R C rnew_def cnew_def)
  have "governing_schedules st1 ?a = [snew]"
    unfolding governing_schedules_def S snew_def[symmetric]
    using old_none new_one by simp
  then show "length (governing_schedules st1 ?a) = 1" by simp
qed

text \<open>
  C6, as amended. Two calls of \<open>setupInterestSchedule\<close> in succession for the same account,
  with any other parameter values, the first having returned the schedule id \<open>sid\<close>: the
  second call returns \<open>sid\<close> again and adds no row to the rules, the conditions, the
  actions, the schedules, the next dates or the payees. The schedule rows that govern the
  account afterwards are one if none governed it before the first call, and as many as
  before otherwise. (The rule id drawn by the first call is not yet referred to by a
  schedule, and the month utilities have a next date for the second call.)
\<close>

theorem setupInterestSchedule_twice:
  assumes fresh: "uuid_seq h (Suc (uuid_count st)) \<notin> sched_rule ` set (schedules st)"
    and same: "isp_accountId p' = isp_accountId p"
    and first: "setupInterestSchedule h p st = (Inr sid, st1)"
    and second: "setupInterestSchedule h' p' st1 = (r2, st2)"
    and date: "getNextInterestDate (currentDay h') (isp_interestPostingDay p') None \<noteq> None"
  shows "r2 = Inr sid
    \<and> rules st2 = rules st1 \<and> rule_conditions st2 = rule_conditions st1
    \<and> schedules st2 = schedules st1 \<and> payees st2 = payees st1
    \<and> length (rule_actions st2) = length (rule_actions st1)
    \<and> length (schedules_next_date st2) = length (schedules_next_date st1)
    \<and> uuid_count st2 = uuid_count st1
    \<and> length (governing_schedules st2 (isp_accountId p))
        = (if governing_schedules st (isp_accountId p) = [] then 1
           else length (governing_schedules st (isp_accountId p)))"
proof -
  let ?a = "isp_accountId p"
  have look: "\<exists>rid. db_first (find_schedules st1 ?a) = Some (sid, rid)"
    and gov: "length (governing_schedules st1 ?a)
        = (if governing_schedules st ?a = [] then 1 else length (governing_schedules st ?a))"
  proof -
    show "\<exists>rid. db_first (find_schedules st1 ?a) = Some (sid, rid)"
    proof (cases "find_schedules st ?a = []")
      case True
      then show ?thesis using setup_create_lookup(1)[OF True fresh first] by blast
    next
      case False
      then obtain sid0 rid0 where f: "db_first (find_schedules st ?a) = Some (sid0, rid0)"
        by (cases "find_schedules st ?a") (auto simp: db_first_def)
      from setup_existing_props[OF f first]
      have "sid = sid0" "rules st1 = rules st" "rule_conditions st1 = rule_conditions st"
        "schedules st1 = schedules st" by auto
      then show ?thesis using f find_schedules_cong[of st1 st ?a] by simp
    qed
    show "length (governing_schedules st1 ?a)
        = (if governing_schedules st ?a = [] then 1 else length (governing_schedules st ?a))"
    proof (cases "find_schedules st ?a = []")
      case True
      then show ?thesis using setup_create_lookup(2)[OF True fresh first]
        by (simp add: governing_empty_iff)
    next
      case False
      then obtain sid0 rid0 where f: "db_first (find_schedules st ?a) = Some (sid0, rid0)"
        by (cases "find_schedules st ?a") (auto simp: db_first_def)
      from setup_existing_props[OF f first]
      have "rules st1 = rules st" "rule_conditions st1 = rule_conditions st"
        "schedules st1 = schedules st" by auto
      then show ?thesis using False governing_cong[of st1 st ?a]
        by (simp add: governing_empty_iff)
    qed
  qed
  from look obtain rid where l: "db_first (find_schedules st1 (isp_accountId p')) = Some (sid, rid)"
    using same by auto
  from setup_existing_props[OF l second] date
  have fr: "r2 = Inr sid" "rules st2 = rules st1" "rule_conditions st2 = rule_conditions st1"
    "schedules st2 = schedules st1" "payees st2 = payees st1"
    "length (rule_actions st2) = length (rule_actions st1)"
    "length (schedules_next_date st2) = length (schedules_next_date st1)"
    "uuid_count st2 = uuid_count st1"
    by auto
  have "governing_schedules st2 ?a = governing_schedules st1 ?a"
    using fr by (intro governing_cong) auto
  then show ?thesis using fr gov by simp
qed

lemma setup_create_result:
  assumes "find_schedules st (isp_accountId p) = []"
    and "getNextInterestDate (currentDay h) (isp_interestPostingDay p) None = Some d"
  shows "fst (setupInterestSchedule h p st) = Inr (uuid_seq h (uuid_count st))"
  using assms
  by (auto simp: setupInterestSchedule_def Let_def uuidv4_def insertPayee_def
      insertWithUUID_next_date_def db_first_def split: option.splits prod.splits list.splits)

lemma demo_date:
  "getNextInterestDate (currentDay demo_host) (isp_interestPostingDay demo_params) None
     = Some ''2024-02-15''"
proof -
  have "getNextInterestDate ''2024-01-15'' (Some 15) None = Some ''2024-02-15''"
    by code_simp
  then show ?thesis by (simp add: demo_host_def demo_params_def)
qed

lemma governing_two: "length (governing_schedules two_schedules_ledger ''acct-1'') = 2"
  by code_simp

lemma find_two: "db_first (find_schedules two_schedules_ledger (isp_accountId demo_params))
   = Some (''sched-rent'', ''rule-rent'')"
  by code_simp


lemma setup_existing_tables:
  assumes "db_first (find_schedules st (isp_accountId p)) = Some x"
  shows "schedules (snd (setupInterestSchedule h p st)) = schedules st"
    and "rules (snd (setupInterestSchedule h p st)) = rules st"
    and "rule_conditions (snd (setupInterestSchedule h p st)) = rule_conditions st"
proof -
  obtain sid rid where x: "x = (sid, rid)" by (cases x)
  show "schedules (snd (setupInterestSchedule h p st)) = schedules st"
    and "rules (snd (setupInterestSchedule h p st)) = rules st"
    and "rule_conditions (snd (setupInterestSchedule h p st)) = rule_conditions st"
    using setup_existing_eq[OF assms[unfolded x], of h]
    by (simp_all add: Let_def split: option.splits)
qed

text \<open>
  C6 as the spec states it fails on a ledger in which two schedules (rent and gym) already
  govern the account: the first call updates the first of them, the second call does the
  same, and two schedule rows govern the account afterwards.
\<close>

theorem setupInterestSchedule_twice_counterexample:
  "length (governing_schedules
      (snd (setupInterestSchedule demo_host demo_params
         (snd (setupInterestSchedule demo_host demo_params two_schedules_ledger)))) ''acct-1'') = 2"
proof -
  let ?st1 = "snd (setupInterestSchedule demo_host demo_params two_schedules_ledger)"
  let ?st2 = "snd (setupInterestSchedule demo_host demo_params ?st1)"
  note t1 = setup_existing_tables[OF find_two, of demo_host]
  have "find_schedules ?st1 (isp_accountId demo_params)
      = find_schedules two_schedules_ledger (isp_accountId demo_params)"
    using t1 by (intro find_schedules_cong)
  then have f1: "db_first (find_schedules ?st1 (isp_accountId demo_params))
      = Some (''sched-rent'', ''rule-rent'')"
    using find_two by simp
  note t2 = setup_existing_tables[OF f1, of demo_host]
  have "governing_schedules ?st2 ''acct-1'' = governing_schedules ?st1 ''acct-1''"
    using t2 by (intro governing_cong)
  also have "\<dots> = governing_schedules two_schedules_ledger ''acct-1''"
    using t1 by (intro governing_cong)
  finally show ?thesis using governing_two by simp
qed

text \<open>On the empty ledger both calls return the id drawn first, and one schedule governs.\<close>

theorem setupInterestSchedule_twice_witness:
  "fst (setupInterestSchedule demo_host demo_params empty_ledger) = Inr ''uuid-0''
   \<and> fst (setupInterestSchedule demo_host demo_params
          (snd (setupInterestSchedule demo_host demo_params empty_ledger))) = Inr ''uuid-0''
   \<and> governing_schedules empty_ledger ''acct-1'' = []
   \<and> length (governing_schedules
        (snd (setupInterestSchedule demo_host demo_params
           (snd (setupInterestSchedule demo_host demo_params empty_ledger)))) ''acct-1'') = 1"
proof -
  let ?st1 = "snd (setupInterestSchedule demo_host demo_params empty_ledger)"
  let ?st2 = "snd (setupInterestSchedule demo_host demo_params ?st1)"
  have e: "find_schedules empty_ledger (isp_accountId demo_params) = []"
    by (simp add: find_schedules_def empty_ledger_def)
  have "''uuid-'' @ digits 0 = ''uuid-0''"
    by code_simp
  then have u: "uuid_seq demo_host (uuid_count empty_ledger) = ''uuid-0''"
    by (simp add: demo_host_def empty_ledger_def)
  have f: "fst (setupInterestSchedule demo_host demo_params empty_ledger) = Inr ''uuid-0''"
    using setup_create_result[OF e demo_date] u by simp
  have first: "setupInterestSchedule demo_host demo_params empty_ledger = (Inr ''uuid-0'', ?st1)"
    using f by (metis prod.collapse)
  have second: "setupInterestSchedule demo_host demo_params ?st1
      = (fst (setupInterestSchedule demo_host demo_params ?st1), ?st2)"
    by simp
  have fresh: "uuid_seq demo_host (Suc (uuid_count empty_ledger)) \<notin> sched_rule ` set (schedules empty_ledger)"
    by (simp add: empty_ledger_def)
  have date: "getNextInterestDate (currentDay demo_host) (isp_interestPostingDay demo_params) None \<noteq> None"
    using demo_date by simp
  have g: "governing_schedules empty_ledger ''acct-1'' = []"
    by (simp add: governing_schedules_def empty_ledger_def)
  have a: "isp_accountId demo_params = ''acct-1''" by (simp add: demo_params_def)
  show ?thesis
    using setupInterestSchedule_twice[OF fresh refl first second date] f g a by simp
qed

lemma setup_existing_state:
  assumes "db_first (find_schedules st (isp_accountId p)) = Some (sid, rid)"
    and "getNextInterestDate (currentDay h) (isp_interestPostingDay p) None = Some nextDate"
  shows "setupInterestSchedule h p st =
     (Inr sid,
      st\<lparr>rule_actions := updated_actions (find_action st rid ''debt_interest_config'')
             (find_action st rid ''category'') p (rule_actions st),
         schedules_next_date := updated_next_dates sid (toDateRepr (monthUtils_dayFromDate h nextDate))
             (Date_now h) (schedules_next_date st)\<rparr>)"
  using setup_existing_eq[OF assms(1), of h] assms(2) by (simp add: Let_def)

text \<open>
  C10. When the lookup of \<open>setupInterestSchedule\<close> finds a schedule \<open>sid\<close> with rule \<open>rid\<close> for
  the account (any non-staged rule with an \<^verbatim>\<open>acct\<close> condition on the account that a schedule
  refers to, whether or not it has a \<^verbatim>\<open>debt_interest_config\<close> action) and the posting date
  calculator answers \<open>nextDate\<close>, the call returns \<open>sid\<close> and the ledger it leaves is the ledger
  it found but for two tables. In the actions, the row that the lookup of the \<^verbatim>\<open>category\<close>
  action of rule \<open>rid\<close> returns has the given category as value, the row that the lookup of
  the \<^verbatim>\<open>debt_interest_config\<close> action returns has the given APR, scheme and compounding
  frequency as value, and every other row, and every other column of these two, is as it
  was; an action that the lookup does not find is skipped. In the next dates, every row
  of schedule \<open>sid\<close> has the stored form of \<open>nextDate\<close> as local and as base next date and the
  clock as both time stamps, and every other row is as it was. No row is added to any
  table and no identifier is drawn.
\<close>

theorem setupInterestSchedule_existing:
  assumes "db_first (find_schedules st (isp_accountId p)) = Some (sid, rid)"
    and "getNextInterestDate (currentDay h) (isp_interestPostingDay p) None = Some nextDate"
    and "setupInterestSchedule h p st = (r, st')"
  shows "r = Inr sid
    \<and> accounts st' = accounts st \<and> transactions st' = transactions st
    \<and> payees st' = payees st \<and> categories st' = categories st
    \<and> rules st' = rules st \<and> rule_conditions st' = rule_conditions st
    \<and> schedules st' = schedules st \<and> uuid_count st' = uuid_count st
    \<and> rule_actions st' =
        map (\<lambda>a. if find_action st rid ''category'' = Some (act_id a)
                    then a\<lparr>act_value := Text (isp_interestCategoryId p)\<rparr>
                  else if find_action st rid ''debt_interest_config'' = Some (act_id a)
                    then a\<lparr>act_value := InterestConfig (isp_apr p) (isp_interestScheme p)
                                            (isp_compoundingFrequency p)\<rparr>
                  else a) (rule_actions st)
    \<and> schedules_next_date st' =
        map (\<lambda>n. if nd_schedule_id n = sid
                    then n\<lparr>nd_local_next_date := toDateRepr (monthUtils_dayFromDate h nextDate),
                           nd_local_next_date_ts := Date_now h,
                           nd_base_next_date := toDateRepr (monthUtils_dayFromDate h nextDate),
                           nd_base_next_date_ts := Date_now h\<rparr>
                  else n) (schedules_next_date st)"
proof -
  have e: "(\<lambda>a. if Some (act_id a) = c then f a else if Some (act_id a) = g then k a else a)
         = (\<lambda>a. if c = Some (act_id a) then f a else if g = Some (act_id a) then k a else a)"
    for c g :: "id option" and f k :: "action_row \<Rightarrow> action_row"
    by (rule ext) auto
  show ?thesis
    using setup_existing_state[OF assms(1,2)] assms(3)
    by (auto simp: updated_actions_def updated_next_dates_def e)
qed

text \<open>
  On the ledger with the loan schedule at 12 percent compounded monthly, a call for 18
  percent simple interest with category \<^verbatim>\<open>cat-interest\<close> and posting day 15, made on 15
  January 2024, returns the loan schedule's id, rewrites the values of the category and of
  the configuration action, leaves the payee action, and stores 15 February 2024 with the
  clock in the schedule's next date.
\<close>

theorem setupInterestSchedule_existing_witness:
  "db_first (find_schedules loan_ledger (isp_accountId demo_params)) = Some (''sched-loan'', ''rule-loan'')
   \<and> getNextInterestDate (currentDay demo_host) (isp_interestPostingDay demo_params) None
       = Some ''2024-02-15''
   \<and> fst (setupInterestSchedule demo_host demo_params loan_ledger) = Inr ''sched-loan''
   \<and> map act_value (rule_actions (snd (setupInterestSchedule demo_host demo_params loan_ledger)))
       = [Text ''payee-interest'', Text ''cat-interest'', InterestConfig 18 ''simple'' ''monthly'']
   \<and> schedules_next_date (snd (setupInterestSchedule demo_host demo_params loan_ledger))
       = [\<lparr>nd_id = ''n1'', nd_schedule_id = ''sched-loan'',
           nd_local_next_date = 20240215, nd_local_next_date_ts = 1705312800000,
           nd_base_next_date = 20240215, nd_base_next_date_ts = 1705312800000\<rparr>]
   \<and> schedules (snd (setupInterestSchedule demo_host demo_params loan_ledger)) = schedules loan_ledger
   \<and> rules (snd (setupInterestSchedule demo_host demo_params loan_ledger)) = rules loan_ledger"
proof -
  let ?st' = "snd (setupInterestSchedule demo_host demo_params loan_ledger)"
  have l: "db_first (find_schedules loan_ledger (isp_accountId demo_params)) = Some (''sched-loan'', ''rule-loan'')"
    by code_simp
  have c: "find_action loan_ledger ''rule-loan'' ''debt_interest_config'' = Some ''a3''"
    "find_action loan_ledger ''rule-loan'' ''category'' = Some ''a2''"
    by code_simp+
  have d: "toDateRepr ''2024-02-15'' = 20240215"
    by (simp add: toDateRepr_def digits_val_def digit_val_def)
  have e: "setupInterestSchedule demo_host demo_params loan_ledger
      = (fst (setupInterestSchedule demo_host demo_params loan_ledger), ?st')"
    by simp
  note t = setupInterestSchedule_existing[OF l demo_date e]
  have r: "fst (setupInterestSchedule demo_host demo_params loan_ledger) = Inr ''sched-loan''"
    using t by simp
  have acts: "rule_actions loan_ledger =
      [\<lparr>act_id = ''a1'', act_rule = ''rule-loan'', act_field = ''payee'',
        act_op = ''set'', act_value = Text ''payee-interest''\<rparr>,
       \<lparr>act_id = ''a2'', act_rule = ''rule-loan'', act_field = ''category'',
        act_op = ''set'', act_value = Text ''cat-old''\<rparr>,
       \<lparr>act_id = ''a3'', act_rule = ''rule-loan'', act_field = ''debt_interest_config'',
        act_op = ''set'', act_value = InterestConfig 12 ''compound_monthly'' ''monthly''\<rparr>]"
    and nds: "schedules_next_date loan_ledger =
      [\<lparr>nd_id = ''n1'', nd_schedule_id = ''sched-loan'',
        nd_local_next_date = 20240115, nd_local_next_date_ts = 0,
        nd_base_next_date = 20240115, nd_base_next_date_ts = 0\<rparr>]"
    by (simp_all add: loan_ledger_def empty_ledger_def)
  have hp: "monthUtils_dayFromDate demo_host ''2024-02-15'' = ''2024-02-15''"
    "Date_now demo_host = 1705312800000"
    "isp_interestCategoryId demo_params = ''cat-interest''" "isp_apr demo_params = 18"
    "isp_interestScheme demo_params = ''simple''" "isp_compoundingFrequency demo_params = ''monthly''"
    by (simp_all add: demo_host_def demo_params_def)
  have a: "map act_value (rule_actions ?st')
       = [Text ''payee-interest'', Text ''cat-interest'', InterestConfig 18 ''simple'' ''monthly'']"
    using t unfolding c acts hp by simp
  have n: "schedules_next_date ?st'
       = [\<lparr>nd_id = ''n1'', nd_schedule_id = ''sched-loan'',
           nd_local_next_date = 20240215, nd_local_next_date_ts = 1705312800000,
           nd_base_next_date = 20240215, nd_base_next_date_ts = 1705312800000\<rparr>]"
    using t unfolding nds hp d by simp
  have s: "schedules ?st' = schedules loan_ledger" "rules ?st' = rules loan_ledger"
    using t by simp_all
  show ?thesis using l demo_date r a n s by simp
qed
section \<open>The debt candidate scorer\<close>

lemma scoreAccount_shape:
  "\<exists>sc conf rs ty est. scoreAccount h st a =
     (if 0 \<le> getAccountBalance st (acct_id a) then None
      else if 40 \<le> sc then
        Some \<lparr>dc_accountId = acct_id a, dc_accountName = acct_name a,
               dc_balance = getAccountBalance st (acct_id a),
               dc_currentlyOffBudget = acct_offbudget a,
               dc_confidence = conf, dc_score = sc, dc_reasons = rs,
               dc_suggestedDebtType = ty, dc_detectedAPR = est\<rparr>
      else None)"
  unfolding scoreAccount_def Let_def case_prod_beta by blast

lemma scoreAccount_Some:
  assumes "scoreAccount h st a = Some c"
  shows "dc_accountId c = acct_id a" "dc_balance c = getAccountBalance st (acct_id a)"
    "dc_balance c < 0" "40 \<le> dc_score c"
proof -
  from scoreAccount_shape[of h st a] obtain sc conf rs ty est where
    "scoreAccount h st a =
     (if 0 \<le> getAccountBalance st (acct_id a) then None
      else if 40 \<le> sc then
        Some \<lparr>dc_accountId = acct_id a, dc_accountName = acct_name a,
               dc_balance = getAccountBalance st (acct_id a),
               dc_currentlyOffBudget = acct_offbudget a,
               dc_confidence = conf, dc_score = sc, dc_reasons = rs,
               dc_suggestedDebtType = ty, dc_detectedAPR = est\<rparr>
      else None)" by blast
  with assms show "dc_accountId c = acct_id a" "dc_balance c = getAccountBalance st (acct_id a)"
    "dc_balance c < 0" "40 \<le> dc_score c"
    by (auto split: if_splits)
qed

lemma in_scanAccounts:
  "c \<in> set (scanAccounts h st) \<Longrightarrow>
     \<exists>a \<in> set (accounts st). \<not> acct_is_debt a \<and> \<not> acct_closed a \<and> \<not> acct_tombstone a
        \<and> scoreAccount h st a = Some c"
  by (auto simp: scanAccounts_def List.map_filter_def)

text \<open>
  C3. Every candidate that \<open>detectDebtAccounts\<close> returns carries the current balance of its
  account, that balance is negative and its score is at least 40; the list is sorted by
  descending score; and the candidates of any one score stand in the order in which the
  loop met them (\<open>scanAccounts\<close>).
\<close>

theorem detectDebtAccounts_candidates:
  "(\<forall>c \<in> set (detectDebtAccounts h st).
       dc_balance c = getAccountBalance st (dc_accountId c) \<and> dc_balance c < 0 \<and> 40 \<le> dc_score c)
   \<and> sorted_wrt (\<lambda>a b. dc_score b \<le> dc_score a) (detectDebtAccounts h st)
   \<and> (\<forall>k. filter (\<lambda>c. dc_score c = k) (detectDebtAccounts h st)
          = filter (\<lambda>c. dc_score c = k) (scanAccounts h st))"
proof (intro conjI ballI allI)
  fix c assume "c \<in> set (detectDebtAccounts h st)"
  then have "c \<in> set (scanAccounts h st)" by (simp add: detectDebtAccounts_def)
  then obtain a where "scoreAccount h st a = Some c" using in_scanAccounts by blast
  from scoreAccount_Some[OF this]
  show "dc_balance c = getAccountBalance st (dc_accountId c)" "dc_balance c < 0" "40 \<le> dc_score c"
    by simp_all
next
  have "sorted (map (\<lambda>c. - dc_score c) (detectDebtAccounts h st))"
    unfolding detectDebtAccounts_def by (rule sorted_sort_key)
  then show "sorted_wrt (\<lambda>a b. dc_score b \<le> dc_score a) (detectDebtAccounts h st)"
    by (simp add: sorted_map)
next
  fix k
  have "filter (\<lambda>c. - dc_score c = - k) (detectDebtAccounts h st)
      = filter (\<lambda>c. - dc_score c = - k) (scanAccounts h st)"
    unfolding detectDebtAccounts_def by (rule sort_key_stable)
  then show "filter (\<lambda>c. dc_score c = k) (detectDebtAccounts h st)
          = filter (\<lambda>c. dc_score c = k) (scanAccounts h st)"
    by simp
qed

lemma bal: "getAccountBalance cards_ledger ''a1'' = 500000"
  "getAccountBalance cards_ledger ''a2'' = - 250000"
  "getAccountBalance cards_ledger ''a3'' = - 1200000"
  by code_simp+

lemma pay: "filter (\<lambda>t. tx_acct t = a \<and> 0 < tx_amount t \<and> \<not> tx_tombstone t) (transactions cards_ledger)
   = (if a = ''a1'' then [hd (transactions cards_ledger)] else [])"
  by (simp add: cards_ledger_def empty_ledger_def)

lemma pat: "pp_paymentCount (analyzePaymentPatterns h cards_ledger a) \<le> 1"
  by (simp add: analyzePaymentPatterns_def pay order_by_date_desc_def)

lemma ir: "interest_rows cards_ledger a = []"
  by (simp add: interest_rows_def cards_ledger_def empty_ledger_def like_any_def order_by_date_desc_def)

lemma ii: "detectInterestTransactions h cards_ledger a
   = \<lparr>ii_hasInterest = False, ii_count = 0, ii_estimatedAPR = None\<rparr>"
  by (simp add: detectInterestTransactions_def ir)

lemma cat: "checkDebtCategories cards_ledger a = False"
  by (simp add: checkDebtCategories_def cards_ledger_def empty_ledger_def)

lemma kw: "list_ex (\<lambda>keyword. str_includes (toLowerCase ''Visa Card'') keyword) debtKeywords"
  "list_ex (\<lambda>keyword. str_includes (toLowerCase ''Car Loan'') keyword) debtKeywords"
  by code_simp+


lemma pat3: "(3 \<le> pp_paymentCount (analyzePaymentPatterns h cards_ledger a)) = False"
  using pat[of h a] by simp

lemma accts: "filter (\<lambda>a. \<not> acct_is_debt a \<and> \<not> acct_closed a \<and> \<not> acct_tombstone a) (accounts cards_ledger)
   = accounts cards_ledger"
  by (simp add: cards_ledger_def)

lemma accts_list: "accounts cards_ledger =
   [\<lparr>acct_id = ''a1'', acct_name = ''Checking'', acct_offbudget = False, acct_closed = False,
          acct_tombstone = False, acct_is_debt = False\<rparr>,
    \<lparr>acct_id = ''a2'', acct_name = ''Visa Card'', acct_offbudget = False, acct_closed = False,
          acct_tombstone = False, acct_is_debt = False\<rparr>,
    \<lparr>acct_id = ''a3'', acct_name = ''Car Loan'', acct_offbudget = True, acct_closed = False,
          acct_tombstone = False, acct_is_debt = False\<rparr>]"
  by (simp add: cards_ledger_def)

lemma score1: "scoreAccount h cards_ledger
    \<lparr>acct_id = ''a1'', acct_name = ''Checking'', acct_offbudget = False, acct_closed = False,
          acct_tombstone = False, acct_is_debt = False\<rparr> = None"
  by (simp add: scoreAccount_def bal)

lemma score2: "\<exists>c. scoreAccount h cards_ledger
    \<lparr>acct_id = ''a2'', acct_name = ''Visa Card'', acct_offbudget = False, acct_closed = False,
          acct_tombstone = False, acct_is_debt = False\<rparr> = Some c
    \<and> dc_accountId c = ''a2'' \<and> dc_score c = 55 \<and> dc_balance c = - 250000"
  by (simp add: scoreAccount_def bal kw ii cat pat3 Let_def)

lemma score3: "\<exists>c. scoreAccount h cards_ledger
    \<lparr>acct_id = ''a3'', acct_name = ''Car Loan'', acct_offbudget = True, acct_closed = False,
          acct_tombstone = False, acct_is_debt = False\<rparr> = Some c
    \<and> dc_accountId c = ''a3'' \<and> dc_score c = 80 \<and> dc_balance c = - 1200000"
  by (simp add: scoreAccount_def bal kw ii cat pat3 Let_def)

lemma scan_cards:
  "map (\<lambda>c. (dc_accountId c, dc_score c, dc_balance c)) (scanAccounts h cards_ledger)
     = [(''a2'', 55, - 250000), (''a3'', 80, - 1200000)]"
proof -
  from score2[of h] obtain c2 where c2: "scoreAccount h cards_ledger
    \<lparr>acct_id = ''a2'', acct_name = ''Visa Card'', acct_offbudget = False, acct_closed = False,
          acct_tombstone = False, acct_is_debt = False\<rparr> = Some c2"
    "dc_accountId c2 = ''a2''" "dc_score c2 = 55" "dc_balance c2 = - 250000" by blast
  from score3[of h] obtain c3 where c3: "scoreAccount h cards_ledger
    \<lparr>acct_id = ''a3'', acct_name = ''Car Loan'', acct_offbudget = True, acct_closed = False,
          acct_tombstone = False, acct_is_debt = False\<rparr> = Some c3"
    "dc_accountId c3 = ''a3''" "dc_score c3 = 80" "dc_balance c3 = - 1200000" by blast
  have "scanAccounts h cards_ledger = [c2, c3]"
    unfolding scanAccounts_def accts accts_list
    by (simp add: score1 c2(1) c3(1))
  then show ?thesis using c2 c3 by simp
qed

lemma detect_cards:
  "map (\<lambda>c. (dc_accountId c, dc_score c, dc_balance c)) (detectDebtAccounts h cards_ledger)
     = [(''a3'', 80, - 1200000), (''a2'', 55, - 250000)]"
proof -
  obtain c2 c3 where s: "scanAccounts h cards_ledger = [c2, c3]"
    and c: "(dc_accountId c2, dc_score c2, dc_balance c2) = (''a2'', 55, - 250000)"
      "(dc_accountId c3, dc_score c3, dc_balance c3) = (''a3'', 80, - 1200000)"
    using scan_cards[of h] by (auto simp: map_eq_Cons_conv)
  show ?thesis using c by (simp add: detectDebtAccounts_def s)
qed

text \<open>
  On the ledger of three accounts the checking account (positive balance) is skipped, the
  card scores 55 and the off-budget car loan 80: the loan comes first.
\<close>

theorem detectDebtAccounts_candidates_witness:
  "map (\<lambda>c. (dc_accountId c, dc_score c, dc_balance c)) (scanAccounts demo_host cards_ledger)
     = [(''a2'', 55, - 250000), (''a3'', 80, - 1200000)]
   \<and> map (\<lambda>c. (dc_accountId c, dc_score c, dc_balance c)) (detectDebtAccounts demo_host cards_ledger)
     = [(''a3'', 80, - 1200000), (''a2'', 55, - 250000)]
   \<and> sorted_wrt (\<lambda>a b. dc_score b \<le> dc_score a) (detectDebtAccounts demo_host cards_ledger)
   \<and> getAccountBalance cards_ledger ''a1'' = 500000"
  using detectDebtAccounts_candidates[of demo_host cards_ledger] scan_cards[of demo_host]
    detect_cards[of demo_host] bal(1)
  by simp

end
